theory Spec2Isabelle
  imports Main
begin

section \<open>Paths and Python truthiness\<close>

text \<open>
  A \<^verbatim>\<open>pathlib.Path\<close> is the list of its components. \<^verbatim>\<open>joinpath\<close> with an empty
  string returns the path itself; a \<^verbatim>\<open>Path\<close> object is always truthy, a string is
  truthy when it is not empty.
\<close>

type_synonym path = "string list"

definition joinpath :: "path \<Rightarrow> string \<Rightarrow> path" where
  "joinpath p n = (if n = [] then p else p @ [n])"

definition path_name :: "path \<Rightarrow> string" where
  "path_name p = (if p = [] then [] else last p)"

definition path_parent :: "path \<Rightarrow> path" where
  "path_parent p = butlast p"

fun path_str :: "path \<Rightarrow> string" where
  "path_str [] = []"
| "path_str [c] = c"
| "path_str (c # cs) = c @ ''/'' @ path_str cs"

definition truthy :: "string option \<Rightarrow> bool" where
  "truthy s = (case s of None \<Rightarrow> False | Some t \<Rightarrow> t \<noteq> [])"

definition ends_with :: "string \<Rightarrow> string \<Rightarrow> bool" where
  "ends_with s suf = (length suf \<le> length s \<and> drop (length s - length suf) s = suf)"

section \<open>Data model\<close>

datatype error = UsdbLoginError | UsdbNotFoundError | OtherError

datatype download_status = NONE | PENDING | DOWNLOADING | FAILED

datatype level = DEBUG | INFO | WARNING | ERROR

datatype kind = Txt | Audio | Video | Cover | Background

datatype image_kind = COVER | BACKGROUND

datatype tag_writer = M4a | Mp3 | Ogg

datatype fetch_call = FetchAudio string | FetchVideo string | FetchImage image_kind string

datatype event = SongChanged nat | SongDeleted nat | DownloadFinished nat

datatype gen_item = Yield string | LogDebug string

record resource_file =
  fname :: string
  rf_resource :: string

record meta_tags =
  mt_audio :: "string option"
  mt_video :: "string option"
  mt_cover :: "string option"
  mt_background :: "string option"
  is_audio_only :: bool

record sync_meta =
  sync_meta_id :: nat
  sm_song_id :: nat
  sm_path :: path
  mtime :: nat
  sm_meta_tags :: meta_tags
  pinned :: bool
  sm_txt :: "resource_file option"
  sm_audio :: "resource_file option"
  sm_video :: "resource_file option"
  sm_cover :: "resource_file option"
  sm_background :: "resource_file option"

record usdb_song =
  song_id :: nat
  artist :: string
  title :: string
  language :: string
  edition :: string
  golden_notes :: bool
  rating :: int
  views :: int
  status :: download_status
  sync_meta :: "sync_meta option"

record song_details =
  sd_song_id :: nat
  sd_artist :: string
  sd_title :: string
  uploader :: string
  sd_cover_url :: "string option"
  sd_golden_notes :: bool
  sd_rating :: int
  sd_views :: int
  all_comment_videos :: "string list"

record headers =
  h_artist :: string
  h_title :: string
  h_language :: "string option"
  h_edition :: "string option"
  h_creator :: "string option"
  h_mp3 :: "string option"
  h_video :: "string option"
  h_cover :: "string option"
  h_background :: "string option"

record song_txt =
  txt_headers :: headers
  txt_meta_tags :: meta_tags
  minimum_song_length :: string

record audio_options =
  embed_artwork :: bool

record cover_options =
  max_size :: nat

record options =
  song_dir :: path
  txt_options :: "unit option"
  audio_options :: "audio_options option"
  video_options :: "unit option"
  cover :: "cover_options option"
  background_options :: "(bool \<Rightarrow> bool) option"

record locations =
  folder :: path
  filename_stem :: string
  tempdir :: path

record temp_resource_file =
  old_path :: "path option"
  new_path :: "path option"
  resource :: "string option"

record temp_resource_files =
  tf_txt :: temp_resource_file
  tf_audio :: temp_resource_file
  tf_video :: temp_resource_file
  tf_cover :: temp_resource_file
  tf_background :: temp_resource_file

record Context =
  song :: usdb_song
  details :: song_details
  ctx_options :: options
  ctx_txt :: song_txt
  ctx_locations :: locations
  out :: temp_resource_files

text \<open>
  Everything a run reads or changes outside its context: the entries of the file system,
  the paths moved to the trash, the tag writers that ran, the resource fetches made, the
  log, the library store and the posted events.
\<close>

record world =
  files :: "path list"
  trashed :: "path list"
  tagged :: "(tag_writer \<times> path) list"
  fetched :: "fetch_call list"
  logs :: "(level \<times> string) list"
  db :: "nat \<rightharpoonup> usdb_song"
  events :: "event list"

text \<open>
  The collaborators whose code is not part of the pipeline, taken as parameters: the
  scraper, the resource fetchers (a fetch returns the extension or path of the file it
  created, or nothing), the outcome of a tag writer, and the helpers of
  \<^verbatim>\<open>usdb_syncer.utils\<close> and \<^verbatim>\<open>usdb_syncer.sync_meta\<close>.
\<close>

record env =
  get_usdb_details :: "nat \<Rightarrow> error + song_details"
  get_notes_parsed :: "nat \<Rightarrow> error + song_txt"
  download_audio :: "string \<Rightarrow> string option"
  download_video :: "string \<Rightarrow> string option"
  download_and_process_image :: "image_kind \<Rightarrow> string \<Rightarrow> path option"
  write_tags_ok :: "tag_writer \<Rightarrow> path \<Rightarrow> bool"
  sanitize_filename :: "string \<Rightarrow> string"
  resource_file_ending :: "string \<Rightarrow> string"
  is_in_sync :: "resource_file \<Rightarrow> path \<Rightarrow> bool"
  new_sync_meta_id :: nat
  to_filename :: "nat \<Rightarrow> string"
  usdb_url :: "nat \<Rightarrow> string"
  mkdtemp :: path

definition log :: "level \<Rightarrow> string \<Rightarrow> world \<Rightarrow> world" where
  "log l m w = w\<lparr>logs := logs w @ [(l, m)]\<rparr>"

definition add_file :: "path \<Rightarrow> world \<Rightarrow> world" where
  "add_file p w = w\<lparr>files := List.insert p (files w)\<rparr>"

section \<open>Locations\<close>

definition file_path :: "locations \<Rightarrow> string \<Rightarrow> string \<Rightarrow> path" where
  "file_path loc file ext =
     (let name = (if file \<noteq> [] then file else filename_stem loc);
          name = (if ext \<noteq> [] then name @ ''.'' @ ext else name)
      in joinpath (folder loc) name)"

definition temp_path :: "locations \<Rightarrow> string \<Rightarrow> string \<Rightarrow> path" where
  "temp_path loc file ext =
     (let name = (if file \<noteq> [] then file else filename_stem loc);
          name = (if ext \<noteq> [] then name @ ''.'' @ ext else name)
      in joinpath (tempdir loc) name)"

section \<open>Staged resources\<close>

definition empty_file :: temp_resource_file where
  "empty_file = \<lparr>old_path = None, new_path = None, resource = None\<rparr>"

definition empty_files :: temp_resource_files where
  "empty_files = \<lparr>tf_txt = empty_file, tf_audio = empty_file, tf_video = empty_file,
     tf_cover = empty_file, tf_background = empty_file\<rparr>"

definition path_of :: "temp_resource_file \<Rightarrow> path option" where
  "path_of f = (case new_path f of Some p \<Rightarrow> Some p | None \<Rightarrow> old_path f)"

definition path_and_resource :: "temp_resource_file \<Rightarrow> (path \<times> string) option" where
  "path_and_resource f =
     (case path_of f of
        None \<Rightarrow> None
      | Some p \<Rightarrow> (case resource f of
          None \<Rightarrow> None
        | Some r \<Rightarrow> if r \<noteq> [] then Some (p, r) else None))"

text \<open>
  Modelled from the spec: \<^verbatim>\<open>ResourceFile.new\<close> is not among the sources. A committed
  resource is its resource string and the name of its file on disk.
\<close>

definition resource_file_new :: "path \<Rightarrow> string \<Rightarrow> resource_file" where
  "resource_file_new p r = \<lparr>fname = path_name p, rf_resource = r\<rparr>"

definition to_resource_file :: "temp_resource_file \<Rightarrow> resource_file option" where
  "to_resource_file f =
     (case path_and_resource f of None \<Rightarrow> None | Some (p, r) \<Rightarrow> Some (resource_file_new p r))"

fun slot :: "kind \<Rightarrow> temp_resource_files \<Rightarrow> temp_resource_file" where
  "slot Txt fs = tf_txt fs"
| "slot Audio fs = tf_audio fs"
| "slot Video fs = tf_video fs"
| "slot Cover fs = tf_cover fs"
| "slot Background fs = tf_background fs"

fun set_slot :: "kind \<Rightarrow> temp_resource_file \<Rightarrow> temp_resource_files \<Rightarrow> temp_resource_files" where
  "set_slot Txt f fs = fs\<lparr>tf_txt := f\<rparr>"
| "set_slot Audio f fs = fs\<lparr>tf_audio := f\<rparr>"
| "set_slot Video f fs = fs\<lparr>tf_video := f\<rparr>"
| "set_slot Cover f fs = fs\<lparr>tf_cover := f\<rparr>"
| "set_slot Background f fs = fs\<lparr>tf_background := f\<rparr>"

text \<open>The order of \<^verbatim>\<open>TempResourceFiles.__iter__\<close>.\<close>

definition all_kinds :: "kind list" where
  "all_kinds = [Txt, Audio, Video, Cover, Background]"

section \<open>Candidates\<close>

text \<open>
  A generator is the list of what it does when it is consumed to the end: the values it
  yields and, between them, the lines it logs.
\<close>

definition all_video_resources :: "Context \<Rightarrow> gen_item list" where
  "all_video_resources ctx =
     (case mt_video (txt_meta_tags (ctx_txt ctx)) of
        Some v \<Rightarrow> if v \<noteq> [] then [Yield v] else []
      | None \<Rightarrow> [])
     @ map Yield (all_comment_videos (details ctx))"

definition all_audio_resources :: "Context \<Rightarrow> gen_item list" where
  "all_audio_resources ctx =
     (case mt_audio (txt_meta_tags (ctx_txt ctx)) of
        Some a \<Rightarrow> if a \<noteq> [] then [Yield a] else []
      | None \<Rightarrow> [])
     @ (if \<not> truthy (mt_video (txt_meta_tags (ctx_txt ctx)))
        then [LogDebug ''No valid audio/video meta tag. Looking in comments.''] else [])
     @ all_video_resources ctx"

fun yields :: "gen_item list \<Rightarrow> string list" where
  "yields [] = []"
| "yields (Yield s # xs) = s # yields xs"
| "yields (LogDebug m # xs) = yields xs"

definition cover_url :: "Context \<Rightarrow> world \<Rightarrow> string option \<times> world" where
  "cover_url ctx w =
     (case mt_cover (txt_meta_tags (ctx_txt ctx)) of
        Some url \<Rightarrow> (Some url, log DEBUG (''downloading cover from #VIDEO params: '' @ url) w)
      | None \<Rightarrow>
          if truthy (sd_cover_url (details ctx))
          then (sd_cover_url (details ctx),
                log WARNING ''no cover resource in #VIDEO tag, so fallback to small usdb cover!'' w)
          else (None, w))"

definition background_url :: "Context \<Rightarrow> world \<Rightarrow> string option \<times> world" where
  "background_url ctx w =
     (case mt_background (txt_meta_tags (ctx_txt ctx)) of
        Some url \<Rightarrow>
          (Some url, log DEBUG (''downloading background from #VIDEO params: '' @ url) w)
      | None \<Rightarrow> (None, w))"

section \<open>Download stage\<close>

text \<open>
  The loop over \<^verbatim>\<open>islice(candidates, 10)\<close>: the counter is the number of values still
  to be taken. The result is \<open>True\<close> when the loop returned from the function, \<open>False\<close>
  when it ran to its end.
\<close>

fun audio_loop :: "env \<Rightarrow> nat \<Rightarrow> gen_item list \<Rightarrow> Context \<Rightarrow> world \<Rightarrow> bool \<times> Context \<times> world" where
  "audio_loop e n [] ctx w = (False, ctx, w)"
| "audio_loop e 0 (x # xs) ctx w = (False, ctx, w)"
| "audio_loop e (Suc n) (LogDebug m # xs) ctx w = audio_loop e (Suc n) xs ctx (log DEBUG m w)"
| "audio_loop e (Suc n) (Yield r # xs) ctx w =
     (if resource (tf_audio (out ctx)) = Some r
      then (True, ctx, log INFO ''Audio resource is unchanged.'' w)
      else
        (let w1 = w\<lparr>fetched := fetched w @ [FetchAudio r]\<rparr> in
         if truthy (download_audio e r)
         then
           (let ext = the (download_audio e r);
                p = temp_path (ctx_locations ctx) [] ext
            in (True,
                ctx\<lparr>out := (out ctx)\<lparr>tf_audio := (tf_audio (out ctx))\<lparr>resource := Some r, new_path := Some p\<rparr>\<rparr>\<rparr>,
                log INFO ''Success! Downloaded audio.'' (add_file p w1)))
         else audio_loop e n xs ctx w1))"

definition maybe_download_audio :: "env \<Rightarrow> Context \<Rightarrow> world \<Rightarrow> Context \<times> world" where
  "maybe_download_audio e ctx w =
     (case audio_options (ctx_options ctx) of
        None \<Rightarrow> (ctx, w)
      | Some opts \<Rightarrow>
         (case audio_loop e 10 (all_audio_resources ctx) ctx w of
            (True, ctx1, w1) \<Rightarrow> (ctx1, w1)
          | (False, ctx1, w1) \<Rightarrow>
              (let keep = (if truthy (resource (tf_audio (out ctx1)))
                           then '' Keeping last resource.'' else [])
               in (ctx1, log ERROR (''Failed to download audio (song duration > ''
                     @ minimum_song_length (ctx_txt ctx1) @ '')!'' @ keep) w1))))"

fun video_loop :: "env \<Rightarrow> nat \<Rightarrow> gen_item list \<Rightarrow> Context \<Rightarrow> world \<Rightarrow> bool \<times> Context \<times> world" where
  "video_loop e n [] ctx w = (False, ctx, w)"
| "video_loop e 0 (x # xs) ctx w = (False, ctx, w)"
| "video_loop e (Suc n) (LogDebug m # xs) ctx w = video_loop e (Suc n) xs ctx (log DEBUG m w)"
| "video_loop e (Suc n) (Yield r # xs) ctx w =
     (if resource (tf_video (out ctx)) = Some r
      then (True, ctx, log INFO ''Video resource is unchanged.'' w)
      else
        (let w1 = w\<lparr>fetched := fetched w @ [FetchVideo r]\<rparr> in
         if truthy (download_video e r)
         then
           (let ext = the (download_video e r);
                p = temp_path (ctx_locations ctx) [] ext
            in (True,
                ctx\<lparr>out := (out ctx)\<lparr>tf_video := (tf_video (out ctx))\<lparr>resource := Some r, new_path := Some p\<rparr>\<rparr>\<rparr>,
                log INFO ''Success! Downloaded video.'' (add_file p w1)))
         else video_loop e n xs ctx w1))"

definition maybe_download_video :: "env \<Rightarrow> Context \<Rightarrow> world \<Rightarrow> Context \<times> world" where
  "maybe_download_video e ctx w =
     (if video_options (ctx_options ctx) = None \<or> is_audio_only (txt_meta_tags (ctx_txt ctx))
      then (ctx, w)
      else
        (case video_loop e 10 (all_video_resources ctx) ctx w of
           (True, ctx1, w1) \<Rightarrow> (ctx1, w1)
         | (False, ctx1, w1) \<Rightarrow>
             (let keep = (if truthy (resource (tf_video (out ctx1)))
                          then '' Keeping last resource.'' else [])
              in (ctx1, log ERROR (''Failed to download video!'' @ keep) w1))))"

definition maybe_download_cover :: "env \<Rightarrow> Context \<Rightarrow> world \<Rightarrow> Context \<times> world" where
  "maybe_download_cover e ctx w =
     (case cover (ctx_options ctx) of
        None \<Rightarrow> (ctx, w)
      | Some opts \<Rightarrow>
         (case cover_url ctx w of (u, w1) \<Rightarrow>
            if \<not> truthy u then (ctx, log WARNING ''No cover resource found.'' w1)
            else
              (let url = the u in
               if resource (tf_cover (out ctx)) = Some url
               then (ctx, log INFO ''Cover resource is unchanged.'' w1)
               else
                 (let w2 = w1\<lparr>fetched := fetched w1 @ [FetchImage COVER url]\<rparr> in
                  case download_and_process_image e COVER url of
                    Some p \<Rightarrow>
                      (ctx\<lparr>out := (out ctx)\<lparr>tf_cover := (tf_cover (out ctx))\<lparr>resource := Some url, new_path := Some p\<rparr>\<rparr>\<rparr>,
                       log INFO ''Success! Downloaded cover.'' (add_file p w2))
                  | None \<Rightarrow>
                      (let keep = (if truthy (resource (tf_cover (out ctx)))
                                   then '' Keeping last resource.'' else [])
                       in (ctx, log ERROR (''Failed to download cover!'' @ keep) w2))))))"

definition maybe_download_background :: "env \<Rightarrow> Context \<Rightarrow> world \<Rightarrow> Context \<times> world" where
  "maybe_download_background e ctx w =
     (case background_options (ctx_options ctx) of
        None \<Rightarrow> (ctx, w)
      | Some download_background \<Rightarrow>
         if \<not> download_background (truthy (h_video (txt_headers (ctx_txt ctx)))) then (ctx, w)
         else
         (case background_url ctx w of (u, w1) \<Rightarrow>
            if \<not> truthy u then (ctx, log WARNING ''No background resource found.'' w1)
            else
              (let url = the u in
               if resource (tf_background (out ctx)) = Some url
               then (ctx, log INFO ''Background resource is unchanged.'' w1)
               else
                 (let w2 = w1\<lparr>fetched := fetched w1 @ [FetchImage BACKGROUND url]\<rparr> in
                  case download_and_process_image e BACKGROUND url of
                    Some p \<Rightarrow>
                      (ctx\<lparr>out := (out ctx)\<lparr>tf_background := (tf_background (out ctx))\<lparr>resource := Some url, new_path := Some p\<rparr>\<rparr>\<rparr>,
                       log INFO ''Success! Downloaded background.'' (add_file p w2))
                  | None \<Rightarrow>
                      (let keep = (if truthy (resource (tf_cover (out ctx)))
                                   then '' Keeping last resource.'' else [])
                       in (ctx, log ERROR (''Failed to download background!'' @ keep) w2))))))"

section \<open>Tag-writing stage\<close>

text \<open>The \<^verbatim>\<open>match\<close> statement of the tag-writing stage, on the value it is given.\<close>

definition tag_writer_for :: "string \<Rightarrow> tag_writer option" where
  "tag_writer_for s =
     (if s = ''.m4a'' then Some M4a
      else if s = ''.mp3'' then Some Mp3
      else if s = ''.ogg'' then Some Ogg
      else None)"

definition maybe_write_audio_tags :: "env \<Rightarrow> Context \<Rightarrow> world \<Rightarrow> Context \<times> world" where
  "maybe_write_audio_tags e ctx w =
     (case audio_options (ctx_options ctx) of
        None \<Rightarrow> (ctx, w)
      | Some opts \<Rightarrow>
         (case path_and_resource (tf_audio (out ctx)) of
            None \<Rightarrow> (ctx, w)
          | Some path_resource \<Rightarrow>
              (let p = fst path_resource in
               case tag_writer_for (snd path_resource) of
                 None \<Rightarrow>
                   (ctx, log DEBUG (''Audio tags written to file '' @ [CHR 0x27] @ path_str p @ [CHR 0x27] @ ''.'') w)
               | Some wr \<Rightarrow>
                   if write_tags_ok e wr p
                   then (ctx, log DEBUG (''Audio tags written to file '' @ [CHR 0x27] @ path_str p @ [CHR 0x27] @ ''.'')
                                (w\<lparr>tagged := tagged w @ [(wr, p)]\<rparr>))
                   else (ctx, log ERROR (''Failed to write audio tags to file '' @ [CHR 0x27] @ path_str p @ [CHR 0x27] @ ''!'')
                                (log DEBUG ''<traceback>'' w)))))"

section \<open>File system\<close>

definition path_exists :: "world \<Rightarrow> path \<Rightarrow> bool" where
  "path_exists w p = (p \<in> set (files w))"

text \<open>\<open>under d p\<close>: the entry \<open>p\<close> is \<open>d\<close> itself or lies below it.\<close>

definition under :: "path \<Rightarrow> path \<Rightarrow> bool" where
  "under d p = (take (length d) p = d)"

text \<open>
  Modelled from the spec: \<^verbatim>\<open>send2trash\<close> is not among the sources. The trash facility
  moves the entry (with everything below it) to a recoverable holding area and is a
  no-op on a missing path.
\<close>

definition send2trash :: "path \<Rightarrow> world \<Rightarrow> world" where
  "send2trash p w =
     (if path_exists w p
      then w\<lparr>files := filter (\<lambda>q. \<not> under p q) (files w), trashed := trashed w @ [p]\<rparr>
      else w)"

definition move_entry :: "path \<Rightarrow> path \<Rightarrow> path \<Rightarrow> path" where
  "move_entry src dst q = (if under src q then dst @ drop (length src) q else q)"

text \<open>
  \<^verbatim>\<open>Path.rename\<close>: raises when the source is missing; an existing target is replaced
  (the POSIX behaviour).
\<close>

definition rename :: "path \<Rightarrow> path \<Rightarrow> world \<Rightarrow> error + world" where
  "rename src dst w =
     (if \<not> path_exists w src then Inl OtherError
      else Inr (w\<lparr>files := map (move_entry src dst)
                   (filter (\<lambda>q. under src q \<or> \<not> under dst q) (files w))\<rparr>))"

text \<open>\<^verbatim>\<open>mkdir(parents=True, exist_ok=True)\<close>.\<close>

definition mkdir :: "path \<Rightarrow> world \<Rightarrow> world" where
  "mkdir p w = w\<lparr>files := fold List.insert (map (\<lambda>n. take n p) [1..<Suc (length p)]) (files w)\<rparr>"

section \<open>Folder names\<close>

definition digit_char :: "nat \<Rightarrow> char" where
  "digit_char d = ''0123456789'' ! d"

fun nat_str :: "nat \<Rightarrow> string" where
  "nat_str n = (if n < 10 then [digit_char n] else nat_str (n div 10) @ [digit_char (n mod 10)])"

declare nat_str.simps [simp del]

definition is_digit :: "char \<Rightarrow> bool" where
  "is_digit c = (c \<in> set ''0123456789'')"

definition name_suffix :: "nat \<Rightarrow> string" where
  "name_suffix n = '' ('' @ nat_str n @ '')''"

text \<open>
  Modelled from the spec: \<^verbatim>\<open>is_name_maybe_with_suffix\<close> is not among the sources. The
  text is the name, optionally followed by a numeric suffix for collision avoidance,
  written here as a space and the number in parentheses.
\<close>

definition is_name_maybe_with_suffix :: "string \<Rightarrow> string \<Rightarrow> bool" where
  "is_name_maybe_with_suffix text name =
     (take (length name) text = name \<and>
      (let tail = drop (length name) text in
       tail = [] \<or>
       (4 \<le> length tail \<and> take 2 tail = '' ('' \<and> last tail = CHR '')'' \<and>
        list_all is_digit (butlast (drop 2 tail)))))"

definition candidate :: "path \<Rightarrow> nat \<Rightarrow> path" where
  "candidate p n = butlast p @ [last p @ name_suffix n]"

text \<open>
  Modelled from the spec: \<^verbatim>\<open>next_unique_directory\<close> is not among the sources. It
  returns the path itself when nothing exists there, and otherwise the first of the
  names with the suffixes 1, 2, ... that does not exist. The search is over the
  suffixes up to the number of entries of the file system, among which one is free.
\<close>

definition next_unique_directory :: "world \<Rightarrow> path \<Rightarrow> error + path" where
  "next_unique_directory w p =
     (if \<not> path_exists w p then Inr p
      else if p = [] then Inl OtherError
      else
        (case find (\<lambda>c. \<not> path_exists w c) (map (candidate p) [1..<Suc (Suc (length (files w)))]) of
           Some c \<Rightarrow> Inr c
         | None \<Rightarrow> Inl OtherError))"

text \<open>\<^verbatim>\<open>Path.with_name\<close> raises on a path without a name and on an empty name.\<close>

definition with_name :: "path \<Rightarrow> string \<Rightarrow> error + path" where
  "with_name p n = (if p = [] \<or> n = [] then Inl OtherError else Inr (butlast p @ [n]))"

text \<open>
  Modelled from the spec: \<^verbatim>\<open>Headers.artist_title_str\<close> is not among the sources; the
  stem is derived from artist and title.
\<close>

definition artist_title_str :: "headers \<Rightarrow> string" where
  "artist_title_str h = h_artist h @ '' - '' @ h_title h"

definition Locations_new :: "env \<Rightarrow> world \<Rightarrow> usdb_song \<Rightarrow> path \<Rightarrow> headers \<Rightarrow> path \<Rightarrow> error + locations" where
  "Locations_new e w sng sdir hs tmp =
     (let stem = sanitize_filename e (artist_title_str hs) in
      case sync_meta sng of
        Some sm \<Rightarrow> Inr \<lparr>folder = path_parent (sm_path sm), filename_stem = stem, tempdir = tmp\<rparr>
      | None \<Rightarrow>
          (case next_unique_directory w (joinpath sdir stem) of
             Inl x \<Rightarrow> Inl x
           | Inr f \<Rightarrow> Inr \<lparr>folder = f, filename_stem = stem, tempdir = tmp\<rparr>))"

section \<open>Context\<close>

text \<open>
  Modelled from the spec: \<^verbatim>\<open>SyncMeta.all_resource_files\<close> is not among the sources;
  the five committed files in the order lyrics text, audio, video, cover, background.
\<close>

fun sm_file :: "kind \<Rightarrow> sync_meta \<Rightarrow> resource_file option" where
  "sm_file Txt sm = sm_txt sm"
| "sm_file Audio sm = sm_audio sm"
| "sm_file Video sm = sm_video sm"
| "sm_file Cover sm = sm_cover sm"
| "sm_file Background sm = sm_background sm"

text \<open>
  Modelled from the spec: \<^verbatim>\<open>SyncMeta.new\<close> is not among the sources; a record with a
  newly minted id, not pinned, and no committed file.
\<close>

definition SyncMeta_new :: "env \<Rightarrow> nat \<Rightarrow> path \<Rightarrow> meta_tags \<Rightarrow> sync_meta" where
  "SyncMeta_new e sid fld tags =
     \<lparr>sync_meta_id = new_sync_meta_id e, sm_song_id = sid,
      sm_path = joinpath fld (to_filename e (new_sync_meta_id e)), mtime = 0,
      sm_meta_tags = tags, pinned = False, sm_txt = None, sm_audio = None, sm_video = None,
      sm_cover = None, sm_background = None\<rparr>"

definition seed :: "env \<Rightarrow> locations \<Rightarrow> resource_file option \<Rightarrow> temp_resource_file \<Rightarrow> temp_resource_file" where
  "seed e loc old f =
     (case old of
        None \<Rightarrow> f
      | Some rf \<Rightarrow>
          if is_in_sync e rf (folder loc)
          then f\<lparr>resource := Some (rf_resource rf), old_path := Some (file_path loc (fname rf) [])\<rparr>
          else f)"

definition attrs_post_init :: "env \<Rightarrow> Context \<Rightarrow> Context" where
  "attrs_post_init e ctx =
     (case sync_meta (song ctx) of
        None \<Rightarrow> ctx
      | Some sm \<Rightarrow>
          ctx\<lparr>out := (out ctx)\<lparr>
            tf_audio := seed e (ctx_locations ctx) (sm_audio sm) (tf_audio (out ctx)),
            tf_video := seed e (ctx_locations ctx) (sm_video sm) (tf_video (out ctx)),
            tf_cover := seed e (ctx_locations ctx) (sm_cover sm) (tf_cover (out ctx)),
            tf_background := seed e (ctx_locations ctx) (sm_background sm) (tf_background (out ctx))\<rparr>\<rparr>)"

definition get_usdb_data :: "env \<Rightarrow> nat \<Rightarrow> world \<Rightarrow> (error + song_details \<times> song_txt) \<times> world" where
  "get_usdb_data e sid w =
     (case get_usdb_details e sid of
        Inl x \<Rightarrow> (Inl x, w)
      | Inr d \<Rightarrow>
          (let w1 = log INFO (''Found '' @ [CHR 0x27] @ sd_artist d @ '' - '' @ sd_title d @ [CHR 0x27] @ '' on USDB.'') w in
           case get_notes_parsed e (sd_song_id d) of
             Inl x \<Rightarrow> (Inl x, w1)
           | Inr t \<Rightarrow>
               (let creator = (if truthy (h_creator (txt_headers t)) then h_creator (txt_headers t)
                               else if uploader d \<noteq> [] then Some (uploader d) else None)
                in (Inr (d, t\<lparr>txt_headers := (txt_headers t)\<lparr>h_creator := creator\<rparr>\<rparr>), w1))))"

definition update_song_with_usdb_data :: "usdb_song \<Rightarrow> song_details \<Rightarrow> song_txt \<Rightarrow> usdb_song" where
  "update_song_with_usdb_data sng d t =
     sng\<lparr>artist := sd_artist d, title := sd_title d,
         language := (if truthy (h_language (txt_headers t)) then the (h_language (txt_headers t)) else []),
         edition := (if truthy (h_edition (txt_headers t)) then the (h_edition (txt_headers t)) else []),
         golden_notes := sd_golden_notes d, rating := sd_rating d, views := sd_views d\<rparr>"

definition Context_new :: "env \<Rightarrow> usdb_song \<Rightarrow> options \<Rightarrow> path \<Rightarrow> world \<Rightarrow> (error + Context) \<times> world" where
  "Context_new e sng opts tmp w =
     (case get_usdb_data e (song_id sng) w of
        (Inl x, w1) \<Rightarrow> (Inl x, w1)
      | (Inr (d, t), w1) \<Rightarrow>
          (let sng1 = update_song_with_usdb_data sng d t in
           case Locations_new e w1 sng1 (song_dir opts) (txt_headers t) tmp of
             Inl x \<Rightarrow> (Inl x, w1)
           | Inr paths \<Rightarrow>
               (let sng2 = (if sync_meta sng1 = None
                            then sng1\<lparr>sync_meta := Some (SyncMeta_new e (song_id sng1) (folder paths) (txt_meta_tags t))\<rparr>
                            else sng1)
                in (Inr (attrs_post_init e \<lparr>song = sng2, details = d, ctx_options = opts, ctx_txt = t,
                           ctx_locations = paths, out = empty_files\<rparr>), w1))))"

section \<open>Lyrics file\<close>

definition write_headers :: "Context \<Rightarrow> Context" where
  "write_headers ctx =
     (let h = txt_headers (ctx_txt ctx);
          h = (case path_of (tf_audio (out ctx)) of Some p \<Rightarrow> h\<lparr>h_mp3 := Some (path_name p)\<rparr> | None \<Rightarrow> h);
          h = (case path_of (tf_video (out ctx)) of Some p \<Rightarrow> h\<lparr>h_video := Some (path_name p)\<rparr> | None \<Rightarrow> h);
          h = (case path_of (tf_cover (out ctx)) of Some p \<Rightarrow> h\<lparr>h_cover := Some (path_name p)\<rparr> | None \<Rightarrow> h);
          h = (case path_of (tf_background (out ctx)) of Some p \<Rightarrow> h\<lparr>h_background := Some (path_name p)\<rparr> | None \<Rightarrow> h)
      in ctx\<lparr>ctx_txt := (ctx_txt ctx)\<lparr>txt_headers := h\<rparr>\<rparr>)"

definition maybe_write_txt :: "env \<Rightarrow> Context \<Rightarrow> world \<Rightarrow> Context \<times> world" where
  "maybe_write_txt e ctx w =
     (case txt_options (ctx_options ctx) of
        None \<Rightarrow> (ctx, w)
      | Some opts \<Rightarrow>
          (let ctx1 = write_headers ctx;
               p = temp_path (ctx_locations ctx1) [] ''txt''
           in (ctx1\<lparr>out := (out ctx1)\<lparr>tf_txt := (tf_txt (out ctx1))\<lparr>
                  new_path := Some p, resource := Some (usdb_url e (song_id (song ctx1)))\<rparr>\<rparr>\<rparr>,
               log INFO ''Success! Created song txt.'' (add_file p w))))"

section \<open>Commit stage\<close>

text \<open>
  The functions of the commit stage change the file system step by step and may raise in
  the middle: each returns, with its result or its error, the world as it is at that
  point. Nothing that was done before an error is undone.
\<close>

definition cleanup_step :: "env \<Rightarrow> sync_meta \<Rightarrow> kind \<Rightarrow> Context \<Rightarrow> world \<Rightarrow> (error + Context) \<times> world" where
  "cleanup_step e sm k ctx w =
     (case sm_file k sm of
        None \<Rightarrow> (Inr ctx, w)
      | Some old \<Rightarrow>
          (case old_path (slot k (out ctx)) of
             None \<Rightarrow>
               (let p = file_path (ctx_locations ctx) (fname old) [] in
                if path_exists w p
                then (Inr ctx, log DEBUG (''Trashed untracked file: '' @ [CHR 0x27] @ path_str p @ [CHR 0x27] @ ''.'')
                                 (send2trash p w))
                else (Inr ctx, w))
           | Some op \<Rightarrow>
               (case new_path (slot k (out ctx)) of
                  Some np \<Rightarrow>
                    (Inr ctx, log DEBUG (''Trashed existing file: '' @ [CHR 0x27] @ path_str op @ [CHR 0x27] @ ''.'')
                                (send2trash op w))
                | None \<Rightarrow>
                    (let p = file_path (ctx_locations ctx) [] (resource_file_ending e (fname old)) in
                     if op \<noteq> p
                     then (case rename op p w of
                             Inl x \<Rightarrow> (Inl x, w)
                           | Inr w1 \<Rightarrow>
                               (Inr (ctx\<lparr>out := set_slot k ((slot k (out ctx))\<lparr>old_path := Some p\<rparr>) (out ctx)\<rparr>), w1))
                     else (Inr ctx, w)))))"

fun cleanup_loop :: "env \<Rightarrow> sync_meta \<Rightarrow> kind list \<Rightarrow> Context \<Rightarrow> world \<Rightarrow> (error + Context) \<times> world" where
  "cleanup_loop e sm [] ctx w = (Inr ctx, w)"
| "cleanup_loop e sm (k # ks) ctx w =
     (case cleanup_step e sm k ctx w of
        (Inl x, w1) \<Rightarrow> (Inl x, w1)
      | (Inr ctx1, w1) \<Rightarrow> cleanup_loop e sm ks ctx1 w1)"

definition cleanup_exisiting_resource :: "env \<Rightarrow> Context \<Rightarrow> world \<Rightarrow> (error + Context) \<times> world" where
  "cleanup_exisiting_resource e ctx w =
     (case sync_meta (song ctx) of
        None \<Rightarrow> (Inr ctx, w)
      | Some sm \<Rightarrow> cleanup_loop e sm all_kinds ctx w)"

definition ensure_correct_folder_name :: "locations \<Rightarrow> world \<Rightarrow> (error + locations) \<times> world" where
  "ensure_correct_folder_name loc w =
     (let w1 = mkdir (folder loc) w in
      if is_name_maybe_with_suffix (path_name (folder loc)) (filename_stem loc) then (Inr loc, w1)
      else
        (case with_name (folder loc) (filename_stem loc) of
           Inl x \<Rightarrow> (Inl x, w1)
         | Inr t \<Rightarrow>
             (case next_unique_directory w1 t of
                Inl x \<Rightarrow> (Inl x, w1)
              | Inr new \<Rightarrow>
                  (case rename (folder loc) new w1 of
                     Inl x \<Rightarrow> (Inl x, w1)
                   | Inr w2 \<Rightarrow> (Inr (loc\<lparr>folder := new\<rparr>), w2)))))"

definition persist_step :: "kind \<Rightarrow> Context \<Rightarrow> world \<Rightarrow> (error + Context) \<times> world" where
  "persist_step k ctx w =
     (case new_path (slot k (out ctx)) of
        None \<Rightarrow> (Inr ctx, w)
      | Some np \<Rightarrow>
          (let target = file_path (ctx_locations ctx) (path_name np) [];
               w1 = (if path_exists w target
                     then log DEBUG (''Trashed existing file: '' @ [CHR 0x27] @ path_str target @ [CHR 0x27] @ ''.'')
                            (send2trash target w)
                     else w)
           in case rename np target w1 of
                Inl x \<Rightarrow> (Inl x, w1)
              | Inr w2 \<Rightarrow>
                  (Inr (ctx\<lparr>out := set_slot k ((slot k (out ctx))\<lparr>new_path := Some target\<rparr>) (out ctx)\<rparr>), w2)))"

fun persist_loop :: "kind list \<Rightarrow> Context \<Rightarrow> world \<Rightarrow> (error + Context) \<times> world" where
  "persist_loop [] ctx w = (Inr ctx, w)"
| "persist_loop (k # ks) ctx w =
     (case persist_step k ctx w of
        (Inl x, w1) \<Rightarrow> (Inl x, w1)
      | (Inr ctx1, w1) \<Rightarrow> persist_loop ks ctx1 w1)"

definition persist_tempfiles :: "Context \<Rightarrow> world \<Rightarrow> (error + Context) \<times> world" where
  "persist_tempfiles ctx w = persist_loop all_kinds ctx w"

definition write_sync_meta :: "env \<Rightarrow> Context \<Rightarrow> world \<Rightarrow> Context \<times> world" where
  "write_sync_meta e ctx w =
     (let old = sync_meta (song ctx);
          smid = (case old of Some m \<Rightarrow> sync_meta_id m | None \<Rightarrow> new_sync_meta_id e);
          sm = \<lparr>sync_meta_id = smid, sm_song_id = song_id (song ctx),
                sm_path = file_path (ctx_locations ctx) (to_filename e smid) [], mtime = 0,
                sm_meta_tags = txt_meta_tags (ctx_txt ctx),
                pinned = (case old of Some m \<Rightarrow> pinned m | None \<Rightarrow> False),
                sm_txt = to_resource_file (tf_txt (out ctx)),
                sm_audio = to_resource_file (tf_audio (out ctx)),
                sm_video = to_resource_file (tf_video (out ctx)),
                sm_cover = to_resource_file (tf_cover (out ctx)),
                sm_background = to_resource_file (tf_background (out ctx))\<rparr>
      in (ctx\<lparr>song := (song ctx)\<lparr>sync_meta := Some sm\<rparr>\<rparr>, add_file (sm_path sm) w))"

section \<open>Orchestrator\<close>

record song_loader =
  loader_song :: usdb_song
  loader_options :: options

text \<open>The body of the \<^verbatim>\<open>with tempfile.TemporaryDirectory()\<close> block.\<close>

definition run_stages :: "env \<Rightarrow> usdb_song \<Rightarrow> options \<Rightarrow> path \<Rightarrow> world \<Rightarrow> (error + Context) \<times> world" where
  "run_stages e sng opts tmp w =
     (case Context_new e sng opts tmp w of
        (Inl x, w0) \<Rightarrow> (Inl x, w0)
      | (Inr ctx0, w0) \<Rightarrow>
          (case maybe_download_audio e ctx0 w0 of (ctx1, w1) \<Rightarrow>
           case maybe_download_video e ctx1 w1 of (ctx2, w2) \<Rightarrow>
           case maybe_download_cover e ctx2 w2 of (ctx3, w3) \<Rightarrow>
           case maybe_download_background e ctx3 w3 of (ctx4, w4) \<Rightarrow>
           case maybe_write_audio_tags e ctx4 w4 of (ctx5, w5) \<Rightarrow>
           (case cleanup_exisiting_resource e ctx5 w5 of
              (Inl x, w6) \<Rightarrow> (Inl x, w6)
            | (Inr ctx6, w6) \<Rightarrow>
                (case ensure_correct_folder_name (ctx_locations ctx6) w6 of
                   (Inl x, w7) \<Rightarrow> (Inl x, w7)
                 | (Inr loc7, w7) \<Rightarrow>
                     (case maybe_write_txt e (ctx6\<lparr>ctx_locations := loc7\<rparr>) w7 of (ctx8, w8) \<Rightarrow>
                      persist_tempfiles ctx8 w8)))))"

definition remove_tree :: "path \<Rightarrow> world \<Rightarrow> world" where
  "remove_tree d w = w\<lparr>files := filter (\<lambda>q. \<not> under d q) (files w)\<rparr>"

definition post :: "event \<Rightarrow> world \<Rightarrow> world" where
  "post ev w = w\<lparr>events := events w @ [ev]\<rparr>"

text \<open>
  \<^verbatim>\<open>SongLoader._run_inner\<close>: the result, the loader's own song (whose status was set)
  and the world. The temporary directory is removed on every way out of the block.
\<close>

definition run_inner :: "env \<Rightarrow> song_loader \<Rightarrow> world \<Rightarrow> (error + usdb_song) \<times> song_loader \<times> world" where
  "run_inner e l w =
     (let l1 = l\<lparr>loader_song := (loader_song l)\<lparr>status := DOWNLOADING\<rparr>\<rparr>;
          w1 = post (SongChanged (song_id (loader_song l))) w;
          tmp = mkdtemp e
      in case run_stages e (loader_song l1) (loader_options l1) tmp (add_file tmp w1) of
           (Inl x, w2) \<Rightarrow> (Inl x, l1, remove_tree tmp w2)
         | (Inr ctx, w2) \<Rightarrow>
             (case write_sync_meta e ctx (remove_tree tmp w2) of
                (ctx1, w3) \<Rightarrow> (Inr (song ctx1), l1, w3)))"

text \<open>
  Modelled from the spec: \<^verbatim>\<open>UsdbSong.delete\<close> and \<^verbatim>\<open>UsdbSong.upsert\<close> are not among
  the sources; they remove and replace the song's record in the library store.
\<close>

definition delete_song :: "usdb_song \<Rightarrow> world \<Rightarrow> world" where
  "delete_song sng w = w\<lparr>db := (db w)(song_id sng := None)\<rparr>"

definition upsert :: "usdb_song \<Rightarrow> world \<Rightarrow> world" where
  "upsert sng w = w\<lparr>db := (db w)(song_id sng \<mapsto> sng)\<rparr>"

text \<open>
  Modelled from the spec: the library store and the notification bus are not among the
  sources. \<^verbatim>\<open>run\<close> calls them outside its \<^verbatim>\<open>try\<close> block (the post at the start of
  \<^verbatim>\<open>_run_inner\<close> apart), so an exception of theirs is not handled there; whether a
  call raises is a parameter. The logger does not raise.
\<close>

record collaborators =
  delete_raises :: bool
  upsert_raises :: bool
  post_raises :: "event \<Rightarrow> bool"

text \<open>The store and the bus of the spec, whose interfaces name no failure.\<close>

definition reliable :: collaborators where
  "reliable = \<lparr>delete_raises = False, upsert_raises = False, post_raises = (\<lambda>ev. False)\<rparr>"

text \<open>
  \<^verbatim>\<open>SongLoader._run_inner\<close> with a bus that may raise: the post at its start comes
  after the status is set and before anything else is done.
\<close>

definition run_inner_with :: "collaborators \<Rightarrow> env \<Rightarrow> song_loader \<Rightarrow> world
    \<Rightarrow> (error + usdb_song) \<times> song_loader \<times> world" where
  "run_inner_with c e l w =
     (if post_raises c (SongChanged (song_id (loader_song l)))
      then (Inl OtherError, l\<lparr>loader_song := (loader_song l)\<lparr>status := DOWNLOADING\<rparr>\<rparr>, w)
      else run_inner e l w)"

text \<open>
  \<^verbatim>\<open>SongLoader.run\<close>: the first component is the exception that leaves the function,
  if any. The handlers and the \<^verbatim>\<open>else\<close> branch give the event to post, or the
  exception raised in them; the two posts follow.
\<close>

definition run_with :: "collaborators \<Rightarrow> env \<Rightarrow> song_loader \<Rightarrow> world
    \<Rightarrow> error option \<times> song_loader \<times> world" where
  "run_with c e l w =
     (let sid = song_id (loader_song l) in
      case run_inner_with c e l w of (res, l1, w1) \<Rightarrow>
        (case (case res of
                 Inl UsdbLoginError \<Rightarrow>
                   Inr (SongChanged sid, l1\<lparr>loader_song := (loader_song l1)\<lparr>status := FAILED\<rparr>\<rparr>,
                        log ERROR ''Aborted; download requires login.'' w1)
               | Inl UsdbNotFoundError \<Rightarrow>
                   (let w2 = log ERROR ''Song has been deleted from USDB.'' w1 in
                    if delete_raises c then Inl (OtherError, l1, w2)
                    else Inr (SongDeleted sid, l1, delete_song (loader_song l1) w2))
               | Inl OtherError \<Rightarrow>
                   Inr (SongChanged sid, l1\<lparr>loader_song := (loader_song l1)\<lparr>status := FAILED\<rparr>\<rparr>,
                        log ERROR ''Failed to finish download due to an unexpected error. See debug log for more information.''
                          (log DEBUG ''<traceback>'' w1))
               | Inr updated_song \<Rightarrow>
                   if upsert_raises c then Inl (OtherError, l1, w1)
                   else Inr (SongChanged sid, l1,
                             log INFO ''All done!'' (upsert (updated_song\<lparr>status := NONE\<rparr>) w1)))
         of Inl (x, l2, w2) \<Rightarrow> (Some x, l2, w2)
          | Inr (change_event, l2, w2) \<Rightarrow>
              if post_raises c change_event then (Some OtherError, l2, w2)
              else if post_raises c (DownloadFinished sid) then (Some OtherError, l2, post change_event w2)
              else (None, l2, post (DownloadFinished sid) (post change_event w2))))"

text \<open>\<^verbatim>\<open>SongLoader.run\<close> with the store and the bus of the spec.\<close>

definition run :: "env \<Rightarrow> song_loader \<Rightarrow> world \<Rightarrow> error option \<times> song_loader \<times> world" where
  "run e l w = run_with reliable e l w"

fun walk :: "(string \<Rightarrow> string option) \<Rightarrow> nat \<Rightarrow> string list \<Rightarrow> string option
    \<Rightarrow> (string \<times> string) option \<times> string list" where
  "walk dl n [] s = (None, [])"
| "walk dl 0 (c # cs) s = (None, [])"
| "walk dl (Suc n) (c # cs) s =
     (if s = Some c then (None, [])
      else if truthy (dl c) then (Some (c, the (dl c)), [c])
      else (case walk dl n cs s of (res, fs) \<Rightarrow> (res, c # fs)))"

definition staged :: "Context \<Rightarrow> kind \<Rightarrow> string \<Rightarrow> path \<Rightarrow> Context" where
  "staged ctx k r p = ctx\<lparr>out := set_slot k ((slot k (out ctx))\<lparr>resource := Some r, new_path := Some p\<rparr>) (out ctx)\<rparr>"

text \<open>The single candidate of an image slot.\<close>

definition cover_candidate :: "Context \<Rightarrow> string option" where
  "cover_candidate ctx =
     (case mt_cover (txt_meta_tags (ctx_txt ctx)) of
        Some url \<Rightarrow> Some url
      | None \<Rightarrow> if truthy (sd_cover_url (details ctx)) then sd_cover_url (details ctx) else None)"

definition image_walk :: "(string \<Rightarrow> path option) \<Rightarrow> string option \<Rightarrow> string option
    \<Rightarrow> (string \<times> path) option \<times> string list" where
  "image_walk dl u s =
     (if \<not> truthy u \<or> s = u then (None, [])
      else (case dl (the u) of Some p \<Rightarrow> (Some (the u, p), [the u]) | None \<Rightarrow> (None, [the u])))"

text \<open>
  What a download stage does, as a value: the resource and file it stages, if any, and
  the fetches it makes. It depends on the slot of its own kind only.
\<close>

definition stage_res :: "env \<Rightarrow> Context \<Rightarrow> kind \<Rightarrow> (string \<times> path) option \<times> fetch_call list" where
  "stage_res e ctx k =
     (case k of
        Txt \<Rightarrow> (None, [])
      | Audio \<Rightarrow>
          if audio_options (ctx_options ctx) = None then (None, [])
          else (case walk (download_audio e) 10 (yields (all_audio_resources ctx)) (resource (tf_audio (out ctx))) of
                  (res, fs) \<Rightarrow> (map_option (\<lambda>(r, ext). (r, temp_path (ctx_locations ctx) [] ext)) res,
                                 map FetchAudio fs))
      | Video \<Rightarrow>
          if video_options (ctx_options ctx) = None \<or> is_audio_only (txt_meta_tags (ctx_txt ctx)) then (None, [])
          else (case walk (download_video e) 10 (yields (all_video_resources ctx)) (resource (tf_video (out ctx))) of
                  (res, fs) \<Rightarrow> (map_option (\<lambda>(r, ext). (r, temp_path (ctx_locations ctx) [] ext)) res,
                                 map FetchVideo fs))
      | Cover \<Rightarrow>
          if cover (ctx_options ctx) = None then (None, [])
          else (case image_walk (download_and_process_image e COVER) (cover_candidate ctx) (resource (tf_cover (out ctx))) of
                  (res, fs) \<Rightarrow> (res, map (FetchImage COVER) fs))
      | Background \<Rightarrow>
          if \<not> (case background_options (ctx_options ctx) of None \<Rightarrow> False
                 | Some f \<Rightarrow> f (truthy (h_video (txt_headers (ctx_txt ctx))))) then (None, [])
          else (case image_walk (download_and_process_image e BACKGROUND) (mt_background (txt_meta_tags (ctx_txt ctx)))
                       (resource (tf_background (out ctx))) of
                  (res, fs) \<Rightarrow> (res, map (FetchImage BACKGROUND) fs)))"

definition apply_res :: "Context \<Rightarrow> kind \<Rightarrow> (string \<times> path) option \<Rightarrow> Context" where
  "apply_res ctx k res = (case res of None \<Rightarrow> ctx | Some (r, p) \<Rightarrow> staged ctx k r p)"

text \<open>The four download stages in the order of \<^verbatim>\<open>_run_inner\<close>.\<close>

definition downloads :: "env \<Rightarrow> Context \<Rightarrow> world \<Rightarrow> Context \<times> world" where
  "downloads e ctx w =
     (case maybe_download_audio e ctx w of (ctx1, w1) \<Rightarrow>
      case maybe_download_video e ctx1 w1 of (ctx2, w2) \<Rightarrow>
      case maybe_download_cover e ctx2 w2 of (ctx3, w3) \<Rightarrow>
      maybe_download_background e ctx3 w3)"

fun fetch_kind :: "fetch_call \<Rightarrow> kind" where
  "fetch_kind (FetchAudio r) = Audio"
| "fetch_kind (FetchVideo r) = Video"
| "fetch_kind (FetchImage COVER r) = Cover"
| "fetch_kind (FetchImage BACKGROUND r) = Background"

fun fetch_ok :: "env \<Rightarrow> fetch_call \<Rightarrow> bool" where
  "fetch_ok e (FetchAudio r) = truthy (download_audio e r)"
| "fetch_ok e (FetchVideo r) = truthy (download_video e r)"
| "fetch_ok e (FetchImage ik r) = (download_and_process_image e ik r \<noteq> None)"

text \<open>The resource string a staged slot commits, if it commits a file.\<close>

definition ident :: "temp_resource_file \<Rightarrow> string option" where
  "ident f = map_option rf_resource (to_resource_file f)"

text \<open>What the commit stage keeps of a context: the song, the options and what each slot commits.\<close>

definition carried :: "Context \<Rightarrow> Context \<Rightarrow> bool" where
  "carried c c' = (song c' = song c \<and> ctx_options c' = ctx_options c
     \<and> (\<forall>j. ident (slot j (out c')) = ident (slot j (out c))))"

text \<open>The resource string of the lyrics file a run commits.\<close>

definition txt_ident :: "env \<Rightarrow> options \<Rightarrow> nat \<Rightarrow> string option" where
  "txt_ident e opts sid =
     (if txt_options opts \<noteq> None \<and> usdb_url e sid \<noteq> [] then Some (usdb_url e sid) else None)"

text \<open>The world in which the stages of a run start.\<close>

definition start_world :: "env \<Rightarrow> song_loader \<Rightarrow> world \<Rightarrow> world" where
  "start_world e l w = add_file (mkdtemp e) (post (SongChanged (song_id (loader_song l))) w)"

text \<open>The candidates of each download stage, as lists, from the remote data alone.\<close>

definition video_candidates :: "song_details \<Rightarrow> song_txt \<Rightarrow> string list" where
  "video_candidates d t =
     (if truthy (mt_video (txt_meta_tags t)) then [the (mt_video (txt_meta_tags t))] else [])
     @ all_comment_videos d"

definition audio_candidates :: "song_details \<Rightarrow> song_txt \<Rightarrow> string list" where
  "audio_candidates d t =
     (if truthy (mt_audio (txt_meta_tags t)) then [the (mt_audio (txt_meta_tags t))] else [])
     @ video_candidates d t"

definition image_candidate :: "song_details \<Rightarrow> song_txt \<Rightarrow> image_kind \<Rightarrow> string option" where
  "image_candidate d t ik =
     (case ik of
        COVER \<Rightarrow> (case mt_cover (txt_meta_tags t) of
                    Some url \<Rightarrow> Some url
                  | None \<Rightarrow> if truthy (sd_cover_url d) then sd_cover_url d else None)
      | BACKGROUND \<Rightarrow> mt_background (txt_meta_tags t))"

definition stage_candidates :: "song_details \<Rightarrow> song_txt \<Rightarrow> kind \<Rightarrow> string list" where
  "stage_candidates d t k =
     (case k of
        Txt \<Rightarrow> []
      | Audio \<Rightarrow> take 10 (audio_candidates d t)
      | Video \<Rightarrow> take 10 (video_candidates d t)
      | Cover \<Rightarrow> (if truthy (image_candidate d t COVER) then [the (image_candidate d t COVER)] else [])
      | Background \<Rightarrow> (if truthy (image_candidate d t BACKGROUND) then [the (image_candidate d t BACKGROUND)] else []))"

text \<open>Whether the stage of a kind runs at all, by the options and the lyrics file.\<close>

definition stage_enabled :: "options \<Rightarrow> song_txt \<Rightarrow> kind \<Rightarrow> bool" where
  "stage_enabled opts t k =
     (case k of
        Txt \<Rightarrow> False
      | Audio \<Rightarrow> audio_options opts \<noteq> None
      | Video \<Rightarrow> video_options opts \<noteq> None \<and> \<not> is_audio_only (txt_meta_tags t)
      | Cover \<Rightarrow> cover opts \<noteq> None
      | Background \<Rightarrow> (case background_options opts of None \<Rightarrow> False
                        | Some f \<Rightarrow> f (truthy (h_video (txt_headers t)))))"

text \<open>
  The resource a stage picks and the fetches it makes, from the resource the slot holds
  when the stage starts.
\<close>

definition stage_pick :: "env \<Rightarrow> options \<Rightarrow> song_details \<Rightarrow> song_txt \<Rightarrow> kind \<Rightarrow> string option
    \<Rightarrow> string option \<times> fetch_call list" where
  "stage_pick e opts d t k s =
     (if \<not> stage_enabled opts t k then (None, [])
      else
       (case k of
          Txt \<Rightarrow> (None, [])
        | Audio \<Rightarrow> (case walk (download_audio e) 10 (audio_candidates d t) s of
                      (res, fs) \<Rightarrow> (map_option fst res, map FetchAudio fs))
        | Video \<Rightarrow> (case walk (download_video e) 10 (video_candidates d t) s of
                      (res, fs) \<Rightarrow> (map_option fst res, map FetchVideo fs))
        | Cover \<Rightarrow> (case image_walk (download_and_process_image e COVER) (image_candidate d t COVER) s of
                      (res, fs) \<Rightarrow> (map_option fst res, map (FetchImage COVER) fs))
        | Background \<Rightarrow> (case image_walk (download_and_process_image e BACKGROUND) (image_candidate d t BACKGROUND) s of
                      (res, fs) \<Rightarrow> (map_option fst res, map (FetchImage BACKGROUND) fs))))"

text \<open>The resource string a slot is seeded with from the song's record.\<close>

definition seeded :: "env \<Rightarrow> usdb_song \<Rightarrow> kind \<Rightarrow> string option" where
  "seeded e sng k =
     (case sync_meta sng of
        None \<Rightarrow> None
      | Some sm \<Rightarrow>
          (case sm_file k sm of
             None \<Rightarrow> None
           | Some rf \<Rightarrow> if is_in_sync e rf (path_parent (sm_path sm)) then Some (rf_resource rf) else None))"

text \<open>
  The resource string a slot commits after its stage, from the resource it was seeded
  with: the picked one if a fetch succeeded, else the seeded one.
\<close>

definition committed :: "env \<Rightarrow> options \<Rightarrow> song_details \<Rightarrow> song_txt \<Rightarrow> kind \<Rightarrow> string option \<Rightarrow> string option" where
  "committed e opts d t k s =
     (case fst (stage_pick e opts d t k s) of
        Some r \<Rightarrow> if r \<noteq> [] then Some r else None
      | None \<Rightarrow> if truthy s then s else None)"

text \<open>The download stages in the order in which they run.\<close>

definition download_kinds :: "kind list" where
  "download_kinds = [Audio, Video, Cover, Background]"

section \<open>Concrete inputs\<close>

text \<open>A song, its remote data and an environment, used to run the definitions.\<close>

definition ex_meta_tags :: meta_tags where
  "ex_meta_tags = \<lparr>mt_audio = Some ''urlA'', mt_video = Some ''urlV'', mt_cover = None,
     mt_background = None, is_audio_only = False\<rparr>"

definition ex_headers :: headers where
  "ex_headers = \<lparr>h_artist = ''X'', h_title = ''Y'', h_language = None, h_edition = None,
     h_creator = None, h_mp3 = None, h_video = None, h_cover = None, h_background = None\<rparr>"

definition ex_txt :: song_txt where
  "ex_txt = \<lparr>txt_headers = ex_headers, txt_meta_tags = ex_meta_tags,
     minimum_song_length = ''03:00''\<rparr>"

definition ex_details :: song_details where
  "ex_details = \<lparr>sd_song_id = 1, sd_artist = ''X'', sd_title = ''Y'', uploader = ''u'',
     sd_cover_url = None, sd_golden_notes = False, sd_rating = 0, sd_views = 0,
     all_comment_videos = []\<rparr>"

definition ex_options :: options where
  "ex_options = \<lparr>song_dir = [''songs''], txt_options = Some (),
     audio_options = Some \<lparr>embed_artwork = False\<rparr>, video_options = Some (),
     cover = Some \<lparr>max_size = 1920\<rparr>, background_options = Some (\<lambda>has_video. True)\<rparr>"

definition ex_locations :: locations where
  "ex_locations = \<lparr>folder = [''songs'', ''X - Y''], filename_stem = ''X - Y'',
     tempdir = [''tmp'']\<rparr>"

definition ex_song :: usdb_song where
  "ex_song = \<lparr>song_id = 1, artist = ''X'', title = ''Y'', language = [], edition = [],
     golden_notes = False, rating = 0, views = 0, status = NONE, sync_meta = None\<rparr>"

definition ex_ctx :: Context where
  "ex_ctx = \<lparr>song = ex_song, details = ex_details, ctx_options = ex_options,
     ctx_txt = ex_txt, ctx_locations = ex_locations, out = empty_files\<rparr>"

definition ex_world :: world where
  "ex_world = \<lparr>files = [[''songs'']], trashed = [], tagged = [], fetched = [], logs = [],
     db = Map.empty, events = []\<rparr>"

text \<open>An environment in which every fetch fails and every tag writer succeeds.\<close>

definition ex_env :: env where
  "ex_env = \<lparr>get_usdb_details = (\<lambda>i. Inr ex_details), get_notes_parsed = (\<lambda>i. Inr ex_txt),
     download_audio = (\<lambda>r. None), download_video = (\<lambda>r. None),
     download_and_process_image = (\<lambda>k r. None), write_tags_ok = (\<lambda>wr p. True),
     sanitize_filename = (\<lambda>s. s), resource_file_ending = (\<lambda>s. []),
     is_in_sync = (\<lambda>rf p. True), new_sync_meta_id = 7, to_filename = (\<lambda>i. ''7.usdb''),
     usdb_url = (\<lambda>i. ''usdb://1''), mkdtemp = [''tmp'']\<rparr>"

text \<open>A staged audio file named \<^verbatim>\<open>X - Y.m4a\<close> whose source is a URL.\<close>

definition ex_ctx_m4a :: Context where
  "ex_ctx_m4a = ex_ctx\<lparr>out := empty_files\<lparr>tf_audio :=
     \<lparr>old_path = None, new_path = Some [''tmp'', ''X - Y.m4a''], resource = Some ''urlA''\<rparr>\<rparr>\<rparr>"

text \<open>A staged audio file named \<^verbatim>\<open>X - Y.mp3\<close> whose source is the string \<^verbatim>\<open>.m4a\<close>.\<close>

definition ex_ctx_mp3 :: Context where
  "ex_ctx_mp3 = ex_ctx\<lparr>out := empty_files\<lparr>tf_audio :=
     \<lparr>old_path = None, new_path = Some [''tmp'', ''X - Y.mp3''], resource = Some ''.m4a''\<rparr>\<rparr>\<rparr>"

text \<open>
  A background kept from the last run, no cover, and a new background URL in the tags.
\<close>

definition ex_ctx_bg :: Context where
  "ex_ctx_bg = ex_ctx\<lparr>
     ctx_txt := ex_txt\<lparr>txt_meta_tags := ex_meta_tags\<lparr>mt_background := Some ''bgNew''\<rparr>\<rparr>,
     out := empty_files\<lparr>tf_background :=
       \<lparr>old_path = Some [''songs'', ''X - Y'', ''X - Y [BG].jpg''], new_path = None,
        resource = Some ''bgOld''\<rparr>\<rparr>\<rparr>"

text \<open>A loader for the song, and an environment in which the song is gone from USDB.\<close>

definition ex_loader :: song_loader where
  "ex_loader = \<lparr>loader_song = ex_song, loader_options = ex_options\<rparr>"

definition ex_env_gone :: env where
  "ex_env_gone = ex_env\<lparr>get_usdb_details := (\<lambda>i. Inl UsdbNotFoundError)\<rparr>"

text \<open>
  A song downloaded before: its record holds the audio file \<^verbatim>\<open>old.m4a\<close> from the
  resource \<^verbatim>\<open>urlOld\<close>, and the folder and the file are on disk.
\<close>

definition ex_sync_meta :: sync_meta where
  "ex_sync_meta = \<lparr>sync_meta_id = 3, sm_song_id = 1, sm_path = [''songs'', ''X - Y'', ''3.usdb''],
     mtime = 0, sm_meta_tags = ex_meta_tags, pinned = True, sm_txt = None,
     sm_audio = Some \<lparr>fname = ''old.m4a'', rf_resource = ''urlOld''\<rparr>, sm_video = None,
     sm_cover = None, sm_background = None\<rparr>"

definition ex_loader_kept :: song_loader where
  "ex_loader_kept = \<lparr>loader_song = ex_song\<lparr>sync_meta := Some ex_sync_meta\<rparr>, loader_options = ex_options\<rparr>"

definition ex_world_kept :: world where
  "ex_world_kept = ex_world\<lparr>files := [[''songs''], [''songs'', ''X - Y''],
     [''songs'', ''X - Y'', ''3.usdb''], [''songs'', ''X - Y'', ''old.m4a'']]\<rparr>"

text \<open>
  An environment in which the declared audio URL can be fetched, one in which only the
  second audio candidate can be fetched, and options that enable the lyrics file and the
  audio only. The second runs start from the song and the world the first runs end with.
\<close>

definition ex_env_ok :: env where
  "ex_env_ok = ex_env\<lparr>download_audio := (\<lambda>r. if r = ''urlA'' then Some ''m4a'' else None)\<rparr>"

definition ex_env_second :: env where
  "ex_env_second = ex_env\<lparr>download_audio := (\<lambda>r. if r = ''urlV'' then Some ''m4a'' else None)\<rparr>"

definition ex_options_audio :: options where
  "ex_options_audio = ex_options\<lparr>video_options := None, cover := None, background_options := None\<rparr>"

definition ex_loader_audio :: song_loader where
  "ex_loader_audio = \<lparr>loader_song = ex_song, loader_options = ex_options_audio\<rparr>"

definition ex_loader_again :: "env \<Rightarrow> song_loader" where
  "ex_loader_again e = ex_loader_audio\<lparr>loader_song :=
     (projr (fst (run_inner e ex_loader_audio ex_world)))\<lparr>status := NONE\<rparr>\<rparr>"

definition ex_world_again :: "env \<Rightarrow> world" where
  "ex_world_again e = snd (snd (run_inner e ex_loader_audio ex_world))"










section \<open>Properties of the candidate resolver\<close>

lemma yields_append: "yields (xs @ ys) = yields xs @ yields ys"
  by (induction xs rule: yields.induct) simp_all

lemma yields_map_Yield: "yields (map Yield xs) = xs"
  by (induction xs) simp_all

text \<open>
  C7, as the code has it: the audio candidates are the declared audio URL, when there is
  one, followed in every case by the whole sequence of video candidates.
\<close>

theorem all_audio_resources_yields:
  "yields (all_audio_resources ctx) =
     (if truthy (mt_audio (txt_meta_tags (ctx_txt ctx)))
      then [the (mt_audio (txt_meta_tags (ctx_txt ctx)))] else [])
     @ yields (all_video_resources ctx)"
  by (simp add: all_audio_resources_def yields_append truthy_def split: option.splits)

text \<open>
  C7, as it is stated, fails: with the audio URL \<^verbatim>\<open>urlA\<close> and the video URL
  \<^verbatim>\<open>urlV\<close> declared, the audio candidates are both, not \<^verbatim>\<open>urlA\<close> alone.
\<close>

theorem all_audio_resources_counterexample:
  "mt_audio (txt_meta_tags (ctx_txt ex_ctx)) = Some ''urlA''
   \<and> yields (all_audio_resources ex_ctx) = [''urlA'', ''urlV'']
   \<and> yields (all_audio_resources ex_ctx) \<noteq> [''urlA'']"
  by (simp add: all_audio_resources_def all_video_resources_def ex_ctx_def ex_txt_def
      ex_meta_tags_def ex_details_def truthy_def)

section \<open>Properties of the tag-writing stage\<close>

text \<open>
  C1 at a concrete input: the staged audio file is \<^verbatim>\<open>X - Y.m4a\<close> and tagging is
  enabled, yet no writer runs, because the value matched against the three extensions
  is the resource string. With the file \<^verbatim>\<open>X - Y.mp3\<close> and the resource string
  \<^verbatim>\<open>.m4a\<close> the m4a writer runs on the mp3 file.
\<close>

theorem maybe_write_audio_tags_matches_resource:
  "path_and_resource (tf_audio (out ex_ctx_m4a)) = Some ([''tmp'', ''X - Y.m4a''], ''urlA'')
   \<and> ends_with (path_name [''tmp'', ''X - Y.m4a'']) ''.m4a''
   \<and> tagged (snd (maybe_write_audio_tags ex_env ex_ctx_m4a ex_world)) = []
   \<and> ends_with (path_name [''tmp'', ''X - Y.mp3'']) ''.mp3''
   \<and> tagged (snd (maybe_write_audio_tags ex_env ex_ctx_mp3 ex_world))
       = [(M4a, [''tmp'', ''X - Y.mp3''])]"
  by (simp add: maybe_write_audio_tags_def path_and_resource_def path_of_def tag_writer_for_def
      ex_ctx_m4a_def ex_ctx_mp3_def ex_ctx_def ex_options_def ex_env_def ex_world_def
      empty_files_def empty_file_def ends_with_def path_name_def log_def Let_def)

section \<open>Properties of the download stage\<close>

text \<open>
  C8 at a concrete input: the background slot holds the previous resource \<^verbatim>\<open>bgOld\<close>,
  the cover slot is empty, and the fetch of the new background fails. The slot is left as
  it was, and the error line does not say that the previous resource is kept, because the
  line is built from the cover slot.
\<close>

theorem maybe_download_background_keep_message:
  "resource (tf_background (out ex_ctx_bg)) = Some ''bgOld''
   \<and> fst (maybe_download_background ex_env ex_ctx_bg ex_world) = ex_ctx_bg
   \<and> fetched (snd (maybe_download_background ex_env ex_ctx_bg ex_world))
       = [FetchImage BACKGROUND ''bgNew'']
   \<and> last (logs (snd (maybe_download_background ex_env ex_ctx_bg ex_world)))
       = (ERROR, ''Failed to download background!'')"
  by (simp add: maybe_download_background_def background_url_def truthy_def log_def
      ex_ctx_bg_def ex_ctx_def ex_options_def ex_txt_def ex_meta_tags_def ex_headers_def
      ex_env_def ex_world_def empty_files_def empty_file_def Let_def)

section \<open>The events of a run\<close>

text \<open>No stage of the pipeline posts an event.\<close>

lemma events_log [simp]: "events (log l m w) = events w" by (simp add: log_def)
lemma events_add_file [simp]: "events (add_file p w) = events w" by (simp add: add_file_def)
lemma events_send2trash [simp]: "events (send2trash p w) = events w" by (simp add: send2trash_def)
lemma events_mkdir [simp]: "events (mkdir p w) = events w" by (simp add: mkdir_def)
lemma events_remove_tree [simp]: "events (remove_tree p w) = events w" by (simp add: remove_tree_def)
lemma events_rename: "rename s d w = Inr w' \<Longrightarrow> events w' = events w"
  by (auto simp: rename_def split: if_splits)

lemma events_audio_loop: "audio_loop e n xs ctx w = (b, ctx', w') \<Longrightarrow> events w' = events w"
  by (induction e n xs ctx w rule: audio_loop.induct) (auto simp: Let_def split: if_splits)

lemma events_video_loop: "video_loop e n xs ctx w = (b, ctx', w') \<Longrightarrow> events w' = events w"
  by (induction e n xs ctx w rule: video_loop.induct) (auto simp: Let_def split: if_splits)

lemma events_audio: "maybe_download_audio e ctx w = (ctx', w') \<Longrightarrow> events w' = events w"
  by (auto simp: maybe_download_audio_def Let_def split: option.splits prod.splits bool.splits dest: events_audio_loop)

lemma events_video: "maybe_download_video e ctx w = (ctx', w') \<Longrightarrow> events w' = events w"
  by (auto simp: maybe_download_video_def Let_def split: option.splits prod.splits bool.splits if_splits dest: events_video_loop)

lemma events_cover: "maybe_download_cover e ctx w = (ctx', w') \<Longrightarrow> events w' = events w"
  by (auto simp: maybe_download_cover_def cover_url_def Let_def split: option.splits prod.splits if_splits)

lemma events_background: "maybe_download_background e ctx w = (ctx', w') \<Longrightarrow> events w' = events w"
  by (auto simp: maybe_download_background_def background_url_def Let_def split: option.splits prod.splits if_splits)

lemma events_tags: "maybe_write_audio_tags e ctx w = (ctx', w') \<Longrightarrow> events w' = events w"
  by (auto simp: maybe_write_audio_tags_def Let_def split: option.splits prod.splits if_splits)

lemma events_cleanup_step: "cleanup_step e sm k ctx w = (r, w') \<Longrightarrow> events w' = events w"
  by (auto simp: cleanup_step_def Let_def split: option.splits sum.splits if_splits dest: events_rename)

lemma events_cleanup_loop: "cleanup_loop e sm ks ctx w = (r, w') \<Longrightarrow> events w' = events w"
proof (induction ks arbitrary: ctx w)
  case Nil then show ?case by simp
next
  case (Cons k ks)
  obtain r1 w1 where s: "cleanup_step e sm k ctx w = (r1, w1)"
    by (cases "cleanup_step e sm k ctx w") auto
  have e1: "events w1 = events w" using events_cleanup_step [OF s] .
  show ?case
  proof (cases r1)
    case (Inl x)
    with Cons.prems s e1 show ?thesis by simp
  next
    case (Inr c1)
    with Cons.prems s have "cleanup_loop e sm ks c1 w1 = (r, w')" by simp
    from Cons.IH [OF this] e1 show ?thesis by simp
  qed
qed

lemma events_cleanup: "cleanup_exisiting_resource e ctx w = (r, w') \<Longrightarrow> events w' = events w"
  by (auto simp: cleanup_exisiting_resource_def split: option.splits dest: events_cleanup_loop)

lemma events_ensure: "ensure_correct_folder_name loc w = (r, w') \<Longrightarrow> events w' = events w"
  by (auto simp: ensure_correct_folder_name_def Let_def split: sum.splits if_splits dest: events_rename)

lemma events_write_txt: "maybe_write_txt e ctx w = (ctx', w') \<Longrightarrow> events w' = events w"
  by (auto simp: maybe_write_txt_def Let_def split: option.splits)

lemma events_persist_step: "persist_step k ctx w = (r, w') \<Longrightarrow> events w' = events w"
  by (auto simp: persist_step_def Let_def split: option.splits sum.splits if_splits dest: events_rename)

lemma events_persist_loop: "persist_loop ks ctx w = (r, w') \<Longrightarrow> events w' = events w"
proof (induction ks arbitrary: ctx w)
  case Nil then show ?case by simp
next
  case (Cons k ks)
  obtain r1 w1 where s: "persist_step k ctx w = (r1, w1)"
    by (cases "persist_step k ctx w") auto
  have e1: "events w1 = events w" using events_persist_step [OF s] .
  show ?case
  proof (cases r1)
    case (Inl x)
    with Cons.prems s e1 show ?thesis by simp
  next
    case (Inr c1)
    with Cons.prems s have "persist_loop ks c1 w1 = (r, w')" by simp
    from Cons.IH [OF this] e1 show ?thesis by simp
  qed
qed

lemma events_persist: "persist_tempfiles ctx w = (r, w') \<Longrightarrow> events w' = events w"
  by (simp add: persist_tempfiles_def events_persist_loop)

lemma events_get_usdb_data: "get_usdb_data e i w = (r, w') \<Longrightarrow> events w' = events w"
  by (auto simp: get_usdb_data_def Let_def split: sum.splits)

lemma events_Context_new: "Context_new e s opts tmp w = (r, w') \<Longrightarrow> events w' = events w"
  by (auto simp: Context_new_def Let_def split: sum.splits prod.splits dest: events_get_usdb_data)

lemma events_write_sync_meta: "write_sync_meta e ctx w = (ctx', w') \<Longrightarrow> events w' = events w"
  by (auto simp: write_sync_meta_def Let_def)

lemma events_run_stages: "run_stages e s opts tmp w = (r, w') \<Longrightarrow> events w' = events w"
  unfolding run_stages_def
  by (auto split: sum.splits prod.splits
      dest!: events_Context_new events_audio events_video events_cover events_background events_tags
        events_cleanup events_ensure events_write_txt events_persist)

lemma events_run_inner:
  "run_inner e l w = (r, l', w') \<Longrightarrow> events w' = events w @ [SongChanged (song_id (loader_song l))]"
  unfolding run_inner_def Let_def
  by (auto simp: post_def split: sum.splits prod.splits dest!: events_run_stages events_write_sync_meta)

section \<open>Properties of the sync record\<close>

lemma write_sync_meta_record_id:
  "sync_meta (song (fst (write_sync_meta e ctx w))) \<noteq> None
   \<and> sync_meta_id (the (sync_meta (song (fst (write_sync_meta e ctx w)))))
       = (case sync_meta (song ctx) of Some m \<Rightarrow> sync_meta_id m | None \<Rightarrow> new_sync_meta_id e)
   \<and> pinned (the (sync_meta (song (fst (write_sync_meta e ctx w)))))
       = (case sync_meta (song ctx) of Some m \<Rightarrow> pinned m | None \<Rightarrow> False)"
  by (simp add: write_sync_meta_def Let_def)

section \<open>Properties of the orchestrator\<close>

lemma run_with_reliable_inner:
  "\<forall>ev. \<not> post_raises c ev \<Longrightarrow> run_inner_with c e l w = run_inner e l w"
  by (simp add: run_inner_with_def)

text \<open>
  C9, as the code has it: when no call of the store or the bus raises, no exception
  leaves \<^verbatim>\<open>run\<close>, and whatever the outcome of the pipeline, the events of the run are
  the notification that the download started, followed by exactly one terminal song
  notification (\<^verbatim>\<open>SongDeleted\<close> when the song is gone from USDB, \<^verbatim>\<open>SongChanged\<close>
  otherwise) and exactly one \<^verbatim>\<open>DownloadFinished\<close>.
\<close>

theorem run_with_events:
  assumes "\<not> delete_raises c" and "\<not> upsert_raises c" and "\<forall>ev. \<not> post_raises c ev"
  shows "fst (run_with c e l w) = None
   \<and> events (snd (snd (run_with c e l w)))
       = events w @ [SongChanged (song_id (loader_song l)),
                     (if fst (run_inner e l w) = Inl UsdbNotFoundError
                      then SongDeleted (song_id (loader_song l))
                      else SongChanged (song_id (loader_song l))),
                     DownloadFinished (song_id (loader_song l))]"
proof -
  obtain r l1 w1 where ri: "run_inner e l w = (r, l1, w1)" by (cases "run_inner e l w") auto
  have ri': "run_inner_with c e l w = (r, l1, w1)"
    using ri assms(3) by (simp add: run_with_reliable_inner)
  have ev: "events w1 = events w @ [SongChanged (song_id (loader_song l))]"
    using events_run_inner [OF ri] .
  show ?thesis
    using assms
    by (cases r; (cases "projl r")?)
       (simp_all add: run_with_def ri ri' ev Let_def post_def log_def delete_song_def upsert_def
          split: error.splits)
qed


lemma under_refl [simp]: "under d d" by (simp add: under_def)




lemma walk_zero [simp]: "walk dl 0 cs s = (None, [])"
  by (cases cs) simp_all

lemma fetched_log [simp]: "fetched (log l m w) = fetched w" by (simp add: log_def)

lemma fetched_add_file [simp]: "fetched (add_file p w) = fetched w" by (simp add: add_file_def)

lemma audio_loop_walk:
  "audio_loop e n xs ctx w = (b, ctx', w') \<Longrightarrow>
   fetched w' = fetched w @ map FetchAudio (snd (walk (download_audio e) n (yields xs) (resource (tf_audio (out ctx)))))
   \<and> ctx' = (case fst (walk (download_audio e) n (yields xs) (resource (tf_audio (out ctx)))) of
        None \<Rightarrow> ctx
      | Some (r, ext) \<Rightarrow> staged ctx Audio r (temp_path (ctx_locations ctx) [] ext))"
proof (induction e n xs ctx w rule: audio_loop.induct)
  case (1 e n ctx w)
  then show ?case by simp
next
  case (2 e x xs ctx w)
  then show ?case by simp
next
  case (3 e n m xs ctx w)
  then show ?case by simp
next
  case (4 e n r xs ctx w)
  show ?case
  proof (cases "resource (tf_audio (out ctx)) = Some r")
    case True
    with 4 show ?thesis by auto
  next
    case False
    show ?thesis
    proof (cases "truthy (download_audio e r)")
      case True
      with False 4 show ?thesis by (auto simp: Let_def staged_def)
    next
      case dlf: False
      with False 4 show ?thesis by (auto simp: Let_def split: prod.splits)
    qed
  qed
qed

lemma video_loop_walk:
  "video_loop e n xs ctx w = (b, ctx', w') \<Longrightarrow>
   fetched w' = fetched w @ map FetchVideo (snd (walk (download_video e) n (yields xs) (resource (tf_video (out ctx)))))
   \<and> ctx' = (case fst (walk (download_video e) n (yields xs) (resource (tf_video (out ctx)))) of
        None \<Rightarrow> ctx
      | Some (r, ext) \<Rightarrow> staged ctx Video r (temp_path (ctx_locations ctx) [] ext))"
proof (induction e n xs ctx w rule: video_loop.induct)
  case (1 e n ctx w)
  then show ?case by simp
next
  case (2 e x xs ctx w)
  then show ?case by simp
next
  case (3 e n m xs ctx w)
  then show ?case by simp
next
  case (4 e n r xs ctx w)
  show ?case
  proof (cases "resource (tf_video (out ctx)) = Some r")
    case True
    with 4 show ?thesis by auto
  next
    case False
    show ?thesis
    proof (cases "truthy (download_video e r)")
      case True
      with False 4 show ?thesis by (auto simp: Let_def staged_def)
    next
      case dlf: False
      with False 4 show ?thesis by (auto simp: Let_def split: prod.splits)
    qed
  qed
qed

lemma walk_success: "fst (walk dl n cs s) = Some (r, ext) \<Longrightarrow>
    r \<in> set (snd (walk dl n cs s)) \<and> truthy (dl r) \<and> ext = the (dl r) \<and> s \<noteq> Some r \<and> r \<in> set cs"
  by (induction dl n cs s rule: walk.induct) (auto split: if_splits prod.splits)

lemma maybe_download_audio_walk:
  assumes "maybe_download_audio e ctx w = (ctx', w')"
  shows "(audio_options (ctx_options ctx) = None \<longrightarrow> ctx' = ctx \<and> fetched w' = fetched w)
    \<and> (audio_options (ctx_options ctx) \<noteq> None \<longrightarrow>
        fetched w' = fetched w @ map FetchAudio (snd (walk (download_audio e) 10 (yields (all_audio_resources ctx)) (resource (tf_audio (out ctx)))))
        \<and> ctx' = (case fst (walk (download_audio e) 10 (yields (all_audio_resources ctx)) (resource (tf_audio (out ctx)))) of
            None \<Rightarrow> ctx
          | Some (r, ext) \<Rightarrow> staged ctx Audio r (temp_path (ctx_locations ctx) [] ext)))"
proof (cases "audio_options (ctx_options ctx)")
  case None
  with assms show ?thesis by (simp add: maybe_download_audio_def)
next
  case (Some opts)
  obtain b c1 w1 where l: "audio_loop e 10 (all_audio_resources ctx) ctx w = (b, c1, w1)"
    by (cases "audio_loop e 10 (all_audio_resources ctx) ctx w") auto
  from assms Some l have "ctx' = c1 \<and> fetched w' = fetched w1"
    by (cases b) (auto simp: maybe_download_audio_def Let_def)
  with audio_loop_walk [OF l] Some show ?thesis by simp
qed

lemma maybe_download_video_walk:
  assumes "maybe_download_video e ctx w = (ctx', w')"
  shows "(video_options (ctx_options ctx) = None \<or> is_audio_only (txt_meta_tags (ctx_txt ctx)) \<longrightarrow> ctx' = ctx \<and> fetched w' = fetched w)
    \<and> (\<not> (video_options (ctx_options ctx) = None \<or> is_audio_only (txt_meta_tags (ctx_txt ctx))) \<longrightarrow>
        fetched w' = fetched w @ map FetchVideo (snd (walk (download_video e) 10 (yields (all_video_resources ctx)) (resource (tf_video (out ctx)))))
        \<and> ctx' = (case fst (walk (download_video e) 10 (yields (all_video_resources ctx)) (resource (tf_video (out ctx)))) of
            None \<Rightarrow> ctx
          | Some (r, ext) \<Rightarrow> staged ctx Video r (temp_path (ctx_locations ctx) [] ext)))"
proof (cases "video_options (ctx_options ctx) = None \<or> is_audio_only (txt_meta_tags (ctx_txt ctx))")
  case True
  with assms show ?thesis by (auto simp: maybe_download_video_def)
next
  case False
  obtain b c1 w1 where l: "video_loop e 10 (all_video_resources ctx) ctx w = (b, c1, w1)"
    by (cases "video_loop e 10 (all_video_resources ctx) ctx w") auto
  from assms False l have "ctx' = c1 \<and> fetched w' = fetched w1"
    by (cases b) (auto simp: maybe_download_video_def Let_def)
  with video_loop_walk [OF l] False show ?thesis by simp
qed

lemma fst_cover_url: "fst (cover_url ctx w) = cover_candidate ctx"
  by (simp add: cover_url_def cover_candidate_def split: option.splits)

lemma fetched_cover_url: "fetched (snd (cover_url ctx w)) = fetched w"
  by (simp add: cover_url_def split: option.splits)

lemma fst_background_url: "fst (background_url ctx w) = mt_background (txt_meta_tags (ctx_txt ctx))"
  by (simp add: background_url_def split: option.splits)

lemma fetched_background_url: "fetched (snd (background_url ctx w)) = fetched w"
  by (simp add: background_url_def split: option.splits)

lemma truthy_Some: "truthy u \<Longrightarrow> u = Some (the u)"
  by (cases u) (simp_all add: truthy_def)

lemma maybe_download_cover_walk:
  assumes "maybe_download_cover e ctx w = (ctx', w')"
  shows "(cover (ctx_options ctx) = None \<longrightarrow> ctx' = ctx \<and> fetched w' = fetched w)
    \<and> (cover (ctx_options ctx) \<noteq> None \<longrightarrow>
        fetched w' = fetched w @ map (FetchImage COVER)
            (snd (image_walk (download_and_process_image e COVER) (cover_candidate ctx) (resource (tf_cover (out ctx)))))
        \<and> ctx' = (case fst (image_walk (download_and_process_image e COVER) (cover_candidate ctx) (resource (tf_cover (out ctx)))) of
            None \<Rightarrow> ctx
          | Some (r, p) \<Rightarrow> staged ctx Cover r p))"
proof (cases "cover (ctx_options ctx)")
  case None
  with assms show ?thesis by (simp add: maybe_download_cover_def)
next
  case (Some opts)
  obtain u w1 where cu: "cover_url ctx w = (u, w1)" by (cases "cover_url ctx w") auto
  have u: "u = cover_candidate ctx" and f1: "fetched w1 = fetched w"
    using fst_cover_url [of ctx w] fetched_cover_url [of ctx w] cu by simp_all
  show ?thesis
  proof (cases "truthy u")
    case False
    with assms Some cu u f1 show ?thesis
      by (auto simp: maybe_download_cover_def image_walk_def)
  next
    case True
    then have us: "u = Some (the u)" by (rule truthy_Some)
    show ?thesis
    proof (cases "resource (tf_cover (out ctx)) = u")
      case same: True
      with assms Some cu u f1 True us show ?thesis
        by (auto simp: maybe_download_cover_def image_walk_def Let_def)
    next
      case diff: False
      then have d2: "resource (tf_cover (out ctx)) \<noteq> Some (the u)" using us by simp
      show ?thesis
        using assms Some cu f1 True d2 diff u [symmetric]
        by (auto simp: maybe_download_cover_def image_walk_def Let_def staged_def split: option.splits)
    qed
  qed
qed

lemma maybe_download_background_walk:
  assumes "maybe_download_background e ctx w = (ctx', w')"
  shows "(\<not> (case background_options (ctx_options ctx) of None \<Rightarrow> False
              | Some f \<Rightarrow> f (truthy (h_video (txt_headers (ctx_txt ctx))))) \<longrightarrow> ctx' = ctx \<and> fetched w' = fetched w)
    \<and> ((case background_options (ctx_options ctx) of None \<Rightarrow> False
              | Some f \<Rightarrow> f (truthy (h_video (txt_headers (ctx_txt ctx))))) \<longrightarrow>
        fetched w' = fetched w @ map (FetchImage BACKGROUND)
            (snd (image_walk (download_and_process_image e BACKGROUND) (mt_background (txt_meta_tags (ctx_txt ctx))) (resource (tf_background (out ctx)))))
        \<and> ctx' = (case fst (image_walk (download_and_process_image e BACKGROUND) (mt_background (txt_meta_tags (ctx_txt ctx))) (resource (tf_background (out ctx)))) of
            None \<Rightarrow> ctx
          | Some (r, p) \<Rightarrow> staged ctx Background r p))"
proof (cases "case background_options (ctx_options ctx) of None \<Rightarrow> False
              | Some f \<Rightarrow> f (truthy (h_video (txt_headers (ctx_txt ctx))))")
  case False
  with assms show ?thesis by (auto simp: maybe_download_background_def split: option.splits)
next
  case en: True
  then obtain f where f: "background_options (ctx_options ctx) = Some f"
      "f (truthy (h_video (txt_headers (ctx_txt ctx))))"
    by (auto split: option.splits)
  obtain u w1 where cu: "background_url ctx w = (u, w1)" by (cases "background_url ctx w") auto
  have u: "u = mt_background (txt_meta_tags (ctx_txt ctx))" and f1: "fetched w1 = fetched w"
    using fst_background_url [of ctx w] fetched_background_url [of ctx w] cu by simp_all
  show ?thesis
  proof (cases "truthy u")
    case False
    with assms f cu u f1 show ?thesis
      by (auto simp: maybe_download_background_def image_walk_def)
  next
    case True
    then have us: "u = Some (the u)" by (rule truthy_Some)
    show ?thesis
    proof (cases "resource (tf_background (out ctx)) = u")
      case same: True
      with assms f cu u f1 True us show ?thesis
        by (auto simp: maybe_download_background_def image_walk_def Let_def)
    next
      case diff: False
      then have d2: "resource (tf_background (out ctx)) \<noteq> Some (the u)" using us by simp
      show ?thesis
        using assms f cu f1 True d2 diff u [symmetric]
        by (auto simp: maybe_download_background_def image_walk_def Let_def staged_def split: option.splits)
    qed
  qed
qed

lemma stage_audio:
  assumes "maybe_download_audio e ctx w = (ctx', w')"
  shows "fetched w' = fetched w @ snd (stage_res e ctx Audio) \<and> ctx' = apply_res ctx Audio (fst (stage_res e ctx Audio))"
  using maybe_download_audio_walk [OF assms]
  by (cases "audio_options (ctx_options ctx) = None")
     (auto simp: stage_res_def apply_res_def split: prod.splits option.splits)

lemma stage_video:
  assumes "maybe_download_video e ctx w = (ctx', w')"
  shows "fetched w' = fetched w @ snd (stage_res e ctx Video) \<and> ctx' = apply_res ctx Video (fst (stage_res e ctx Video))"
  using maybe_download_video_walk [OF assms]
  by (cases "video_options (ctx_options ctx) = None \<or> is_audio_only (txt_meta_tags (ctx_txt ctx))")
     (auto simp: stage_res_def apply_res_def split: prod.splits option.splits)

lemma stage_cover:
  assumes "maybe_download_cover e ctx w = (ctx', w')"
  shows "fetched w' = fetched w @ snd (stage_res e ctx Cover) \<and> ctx' = apply_res ctx Cover (fst (stage_res e ctx Cover))"
  using maybe_download_cover_walk [OF assms]
  by (cases "cover (ctx_options ctx) = None")
     (auto simp: stage_res_def apply_res_def split: prod.splits option.splits)

lemma stage_background:
  assumes "maybe_download_background e ctx w = (ctx', w')"
  shows "fetched w' = fetched w @ snd (stage_res e ctx Background) \<and> ctx' = apply_res ctx Background (fst (stage_res e ctx Background))"
  using maybe_download_background_walk [OF assms]
  by (cases "case background_options (ctx_options ctx) of None \<Rightarrow> False
              | Some f \<Rightarrow> f (truthy (h_video (txt_headers (ctx_txt ctx))))")
     (auto simp: stage_res_def apply_res_def split: prod.splits option.splits)

lemma slot_set_slot: "slot j (set_slot k f fs) = (if j = k then f else slot j fs)"
  by (cases j; cases k) simp_all

lemma apply_res_fields [simp]:
  "song (apply_res ctx j res) = song ctx"
  "details (apply_res ctx j res) = details ctx"
  "ctx_options (apply_res ctx j res) = ctx_options ctx"
  "ctx_txt (apply_res ctx j res) = ctx_txt ctx"
  "ctx_locations (apply_res ctx j res) = ctx_locations ctx"
  by (auto simp: apply_res_def staged_def split: option.splits)

lemma slot_apply_res:
  "slot k (out (apply_res ctx j res)) =
     (if k = j then (case res of None \<Rightarrow> slot k (out ctx)
                     | Some (r, p) \<Rightarrow> (slot k (out ctx))\<lparr>resource := Some r, new_path := Some p\<rparr>)
      else slot k (out ctx))"
  by (auto simp: apply_res_def staged_def slot_set_slot split: option.splits)

lemma candidates_apply_res [simp]:
  "all_audio_resources (apply_res ctx j res) = all_audio_resources ctx"
  "all_video_resources (apply_res ctx j res) = all_video_resources ctx"
  "cover_candidate (apply_res ctx j res) = cover_candidate ctx"
  by (simp_all add: all_audio_resources_def all_video_resources_def cover_candidate_def
      split: option.splits)

lemma stage_res_apply_res: "j \<noteq> k \<Longrightarrow> stage_res e (apply_res ctx j res) k = stage_res e ctx k"
  using slot_apply_res [of k ctx j res]
  by (cases k) (auto simp: stage_res_def cong: option.case_cong)

lemma downloads_spec:
  assumes "downloads e ctx w = (ctx', w')"
  shows "ctx' = apply_res (apply_res (apply_res (apply_res ctx Audio (fst (stage_res e ctx Audio)))
                  Video (fst (stage_res e ctx Video))) Cover (fst (stage_res e ctx Cover)))
                  Background (fst (stage_res e ctx Background))"
    and "fetched w' = fetched w @ snd (stage_res e ctx Audio) @ snd (stage_res e ctx Video)
                  @ snd (stage_res e ctx Cover) @ snd (stage_res e ctx Background)"
proof -
  obtain c1 w1 where a: "maybe_download_audio e ctx w = (c1, w1)" by (cases "maybe_download_audio e ctx w") auto
  obtain c2 w2 where v: "maybe_download_video e c1 w1 = (c2, w2)" by (cases "maybe_download_video e c1 w1") auto
  obtain c3 w3 where c: "maybe_download_cover e c2 w2 = (c3, w3)" by (cases "maybe_download_cover e c2 w2") auto
  have b: "maybe_download_background e c3 w3 = (ctx', w')"
    using assms a v c by (simp add: downloads_def)
  note A = stage_audio [OF a] and V = stage_video [OF v] and C = stage_cover [OF c] and B = stage_background [OF b]
  have c1: "c1 = apply_res ctx Audio (fst (stage_res e ctx Audio))" using A by simp
  have rv: "stage_res e c1 Video = stage_res e ctx Video"
    unfolding c1 by (rule stage_res_apply_res) simp
  have c2: "c2 = apply_res c1 Video (fst (stage_res e ctx Video))" using V rv by simp
  have rc: "stage_res e c2 Cover = stage_res e ctx Cover"
    unfolding c2 c1 by (simp add: stage_res_apply_res)
  have c3: "c3 = apply_res c2 Cover (fst (stage_res e ctx Cover))" using C rc by simp
  have rb: "stage_res e c3 Background = stage_res e ctx Background"
    unfolding c3 c2 c1 by (simp add: stage_res_apply_res)
  show "ctx' = apply_res (apply_res (apply_res (apply_res ctx Audio (fst (stage_res e ctx Audio)))
                  Video (fst (stage_res e ctx Video))) Cover (fst (stage_res e ctx Cover)))
                  Background (fst (stage_res e ctx Background))"
    using B rb c3 c2 c1 by simp
  show "fetched w' = fetched w @ snd (stage_res e ctx Audio) @ snd (stage_res e ctx Video)
                  @ snd (stage_res e ctx Cover) @ snd (stage_res e ctx Background)"
    using A V C B rv rc rb by simp
qed

lemma stage_res_Txt [simp]: "stage_res e ctx Txt = (None, [])"
  by (simp add: stage_res_def)

lemma slot_downloads:
  assumes "downloads e ctx w = (ctx', w')"
  shows "slot k (out ctx') =
     (case fst (stage_res e ctx k) of None \<Rightarrow> slot k (out ctx)
      | Some (r, p) \<Rightarrow> (slot k (out ctx))\<lparr>resource := Some r, new_path := Some p\<rparr>)"
  unfolding downloads_spec(1) [OF assms]
  by (cases k; hypsubst_thin; simp add: slot_apply_res del: slot.simps cong: option.case_cong)

lemma fields_downloads:
  assumes "downloads e ctx w = (ctx', w')"
  shows "song ctx' = song ctx" "ctx_options ctx' = ctx_options ctx" "ctx_txt ctx' = ctx_txt ctx"
    "ctx_locations ctx' = ctx_locations ctx" "details ctx' = details ctx"
  unfolding downloads_spec(1) [OF assms] by simp_all

lemma image_walk_success: "fst (image_walk dl u s) = Some (r, p) \<Longrightarrow>
    snd (image_walk dl u s) = [r] \<and> dl r = Some p \<and> s \<noteq> Some r"
  by (auto simp: image_walk_def truthy_def split: if_splits option.splits)

lemma stage_res_success:
  assumes "fst (stage_res e ctx k) = Some (r, p)"
  shows "\<exists>c\<in>set (snd (stage_res e ctx k)). fetch_kind c = k \<and> fetch_ok e c"
proof (cases k)
  case Txt
  with assms show ?thesis by simp
next
  case Audio
  with assms obtain ext where
    "fst (walk (download_audio e) 10 (yields (all_audio_resources ctx)) (resource (tf_audio (out ctx)))) = Some (r, ext)"
    by (auto simp: stage_res_def split: if_splits prod.splits)
  from walk_success [OF this] Audio assms show ?thesis
    by (auto simp: stage_res_def split: if_splits prod.splits intro!: bexI [of _ "FetchAudio r"])
next
  case Video
  with assms obtain ext where
    "fst (walk (download_video e) 10 (yields (all_video_resources ctx)) (resource (tf_video (out ctx)))) = Some (r, ext)"
    by (auto simp: stage_res_def split: if_splits prod.splits)
  from walk_success [OF this] Video assms show ?thesis
    by (auto simp: stage_res_def split: if_splits prod.splits intro!: bexI [of _ "FetchVideo r"])
next
  case Cover
  with assms have
    "fst (image_walk (download_and_process_image e COVER) (cover_candidate ctx) (resource (tf_cover (out ctx)))) = Some (r, p)"
    by (auto simp: stage_res_def split: if_splits prod.splits)
  from image_walk_success [OF this] Cover assms show ?thesis
    by (auto simp: stage_res_def split: if_splits prod.splits)
next
  case Background
  with assms have
    "fst (image_walk (download_and_process_image e BACKGROUND) (mt_background (txt_meta_tags (ctx_txt ctx)))
       (resource (tf_background (out ctx)))) = Some (r, p)"
    by (auto simp: stage_res_def split: if_splits prod.splits)
  from image_walk_success [OF this] Background assms show ?thesis
    by (auto simp: stage_res_def split: if_splits prod.splits)
qed

lemma stage_res_kind: "c \<in> set (snd (stage_res e ctx k)) \<Longrightarrow> fetch_kind c = k"
  by (cases k) (auto simp: stage_res_def split: if_splits prod.splits)

lemma ident_eq: "ident f = (if path_of f \<noteq> None \<and> truthy (resource f) then resource f else None)"
  by (auto simp: ident_def to_resource_file_def path_and_resource_def resource_file_new_def truthy_def
      split: option.splits)

lemma carried_refl [simp]: "carried c c" by (simp add: carried_def)

lemma carried_trans: "carried a b \<Longrightarrow> carried b c \<Longrightarrow> carried a c" by (simp add: carried_def)

lemma fetched_send2trash [simp]: "fetched (send2trash p w) = fetched w" by (simp add: send2trash_def)

lemma fetched_mkdir [simp]: "fetched (mkdir p w) = fetched w" by (simp add: mkdir_def)

lemma fetched_remove_tree [simp]: "fetched (remove_tree p w) = fetched w" by (simp add: remove_tree_def)

lemma fetched_post [simp]: "fetched (post ev w) = fetched w" by (simp add: post_def)

lemma fetched_rename: "rename s d w = Inr w' \<Longrightarrow> fetched w' = fetched w"
  by (auto simp: rename_def split: if_splits)

lemma carried_old_path:
  "old_path (slot k (out ctx)) = Some op \<Longrightarrow>
   carried ctx (ctx\<lparr>out := set_slot k ((slot k (out ctx))\<lparr>old_path := Some p\<rparr>) (out ctx)\<rparr>)"
  by (auto simp: carried_def slot_set_slot ident_eq path_of_def split: option.splits)

lemma carried_new_path:
  "new_path (slot k (out ctx)) = Some np \<Longrightarrow>
   carried ctx (ctx\<lparr>out := set_slot k ((slot k (out ctx))\<lparr>new_path := Some p\<rparr>) (out ctx)\<rparr>)"
  by (auto simp: carried_def slot_set_slot ident_eq path_of_def split: option.splits)

lemma cleanup_step_carried:
  assumes "cleanup_step e sm k ctx w = (Inr ctx', w')"
  shows "carried ctx ctx' \<and> fetched w' = fetched w"
  using assms carried_old_path [of k ctx]
  by (auto simp: cleanup_step_def Let_def split: option.splits if_splits sum.splits dest: fetched_rename)

lemma cleanup_loop_carried:
  "cleanup_loop e sm ks ctx w = (Inr ctx', w') \<Longrightarrow> carried ctx ctx' \<and> fetched w' = fetched w"
proof (induction ks arbitrary: ctx w)
  case Nil
  then show ?case by simp
next
  case (Cons k ks)
  then obtain c1 w1 where s: "cleanup_step e sm k ctx w = (Inr c1, w1)"
    and l: "cleanup_loop e sm ks c1 w1 = (Inr ctx', w')"
    by (auto split: sum.splits prod.splits)
  from cleanup_step_carried [OF s] Cons.IH [OF l] show ?case
    by (auto intro: carried_trans)
qed

lemma cleanup_carried:
  "cleanup_exisiting_resource e ctx w = (Inr ctx', w') \<Longrightarrow> carried ctx ctx' \<and> fetched w' = fetched w"
  by (auto simp: cleanup_exisiting_resource_def split: option.splits dest: cleanup_loop_carried)

lemma persist_step_carried:
  assumes "persist_step k ctx w = (Inr ctx', w')"
  shows "carried ctx ctx' \<and> fetched w' = fetched w"
  using assms carried_new_path [of k ctx]
  by (auto simp: persist_step_def Let_def split: option.splits if_splits sum.splits dest: fetched_rename)

lemma persist_loop_carried:
  "persist_loop ks ctx w = (Inr ctx', w') \<Longrightarrow> carried ctx ctx' \<and> fetched w' = fetched w"
proof (induction ks arbitrary: ctx w)
  case Nil
  then show ?case by simp
next
  case (Cons k ks)
  then obtain c1 w1 where s: "persist_step k ctx w = (Inr c1, w1)"
    and l: "persist_loop ks c1 w1 = (Inr ctx', w')"
    by (auto split: sum.splits prod.splits)
  from persist_step_carried [OF s] Cons.IH [OF l] show ?case
    by (auto intro: carried_trans)
qed

lemma persist_carried:
  "persist_tempfiles ctx w = (Inr ctx', w') \<Longrightarrow> carried ctx ctx' \<and> fetched w' = fetched w"
  by (simp add: persist_tempfiles_def persist_loop_carried)

lemma ensure_fetched:
  "ensure_correct_folder_name loc w = (Inr loc', w') \<Longrightarrow> fetched w' = fetched w"
  by (auto simp: ensure_correct_folder_name_def Let_def split: sum.splits if_splits dest: fetched_rename)

lemma write_txt_frame:
  assumes "maybe_write_txt e ctx w = (ctx', w')" and "ident (slot Txt (out ctx)) = None"
  shows "song ctx' = song ctx \<and> ctx_options ctx' = ctx_options ctx \<and> fetched w' = fetched w
    \<and> (\<forall>j. j \<noteq> Txt \<longrightarrow> slot j (out ctx') = slot j (out ctx))
    \<and> ident (slot Txt (out ctx')) = txt_ident e (ctx_options ctx) (song_id (song ctx))"
proof (cases "txt_options (ctx_options ctx)")
  case None
  with assms show ?thesis by (simp add: maybe_write_txt_def txt_ident_def)
next
  case (Some u)
  have "\<And>j. j \<noteq> Txt \<Longrightarrow> slot j (out ctx') = slot j (out ctx)"
    using assms(1) Some
    by (case_tac j) (auto simp: maybe_write_txt_def write_headers_def Let_def)
  then show ?thesis
    using assms(1) Some
    by (auto simp: maybe_write_txt_def write_headers_def Let_def txt_ident_def ident_eq path_of_def truthy_def)
qed

lemma tags_frame: "maybe_write_audio_tags e ctx w = (ctx', w') \<Longrightarrow> ctx' = ctx \<and> fetched w' = fetched w"
  by (auto simp: maybe_write_audio_tags_def Let_def log_def split: option.splits if_splits)

lemma run_stages_downloads:
  "run_stages e sng opts tmp w =
     (case Context_new e sng opts tmp w of
        (Inl x, w0) \<Rightarrow> (Inl x, w0)
      | (Inr ctx0, w0) \<Rightarrow>
          (case downloads e ctx0 w0 of (ctx4, w4) \<Rightarrow>
           case maybe_write_audio_tags e ctx4 w4 of (ctx5, w5) \<Rightarrow>
           (case cleanup_exisiting_resource e ctx5 w5 of
              (Inl x, w6) \<Rightarrow> (Inl x, w6)
            | (Inr ctx6, w6) \<Rightarrow>
                (case ensure_correct_folder_name (ctx_locations ctx6) w6 of
                   (Inl x, w7) \<Rightarrow> (Inl x, w7)
                 | (Inr loc7, w7) \<Rightarrow>
                     (case maybe_write_txt e (ctx6\<lparr>ctx_locations := loc7\<rparr>) w7 of (ctx8, w8) \<Rightarrow>
                      persist_tempfiles ctx8 w8)))))"
  by (simp add: run_stages_def downloads_def split: prod.splits sum.splits)

lemma run_stages_Inr:
  assumes "run_stages e sng opts tmp w = (Inr ctx9, w9)"
  shows "\<exists>ctx0 w0 ctx4 w4. Context_new e sng opts tmp w = (Inr ctx0, w0)
    \<and> downloads e ctx0 w0 = (ctx4, w4) \<and> fetched w9 = fetched w4
    \<and> song ctx9 = song ctx4 \<and> ctx_options ctx9 = ctx_options ctx4
    \<and> (\<forall>j. j \<noteq> Txt \<longrightarrow> ident (slot j (out ctx9)) = ident (slot j (out ctx4)))
    \<and> (ident (slot Txt (out ctx4)) = None \<longrightarrow>
         ident (slot Txt (out ctx9)) = txt_ident e (ctx_options ctx4) (song_id (song ctx4)))"
proof -
  from assms obtain ctx0 w0 where cn: "Context_new e sng opts tmp w = (Inr ctx0, w0)"
    by (auto simp: run_stages_downloads split: prod.splits sum.splits)
  obtain ctx4 w4 where dl: "downloads e ctx0 w0 = (ctx4, w4)" by (cases "downloads e ctx0 w0") auto
  obtain ctx5 w5 where tg: "maybe_write_audio_tags e ctx4 w4 = (ctx5, w5)"
    by (cases "maybe_write_audio_tags e ctx4 w4") auto
  from assms cn dl tg obtain ctx6 w6 where cl: "cleanup_exisiting_resource e ctx5 w5 = (Inr ctx6, w6)"
    by (auto simp: run_stages_downloads split: prod.splits sum.splits)
  from assms cn dl tg cl obtain loc7 w7 where en: "ensure_correct_folder_name (ctx_locations ctx6) w6 = (Inr loc7, w7)"
    by (auto simp: run_stages_downloads split: prod.splits sum.splits)
  obtain ctx8 w8 where wt: "maybe_write_txt e (ctx6\<lparr>ctx_locations := loc7\<rparr>) w7 = (ctx8, w8)"
    by (cases "maybe_write_txt e (ctx6\<lparr>ctx_locations := loc7\<rparr>) w7") auto
  from assms cn dl tg cl en wt have pe: "persist_tempfiles ctx8 w8 = (Inr ctx9, w9)"
    by (auto simp: run_stages_downloads split: prod.splits sum.splits)
  note T = tags_frame [OF tg] and C = cleanup_carried [OF cl] and E = ensure_fetched [OF en]
    and P = persist_carried [OF pe]
  have i6: "\<And>j. ident (slot j (out ctx6)) = ident (slot j (out ctx4))"
    using T C by (simp add: carried_def)
  show ?thesis
  proof (intro exI conjI)
    show "Context_new e sng opts tmp w = (Inr ctx0, w0)" by (rule cn)
    show "downloads e ctx0 w0 = (ctx4, w4)" by (rule dl)
    show "fetched w9 = fetched w4"
    proof (cases "ident (slot Txt (out ctx4)) = None")
      case True
      then have "ident (slot Txt (out (ctx6\<lparr>ctx_locations := loc7\<rparr>))) = None" using i6 [of Txt] by simp
      from write_txt_frame [OF wt this] T C E P show ?thesis by simp
    next
      case False
      have "fetched w8 = fetched w7"
        using wt by (auto simp: maybe_write_txt_def Let_def split: option.splits)
      with T C E P show ?thesis by simp
    qed
    have s8: "song ctx8 = song ctx6 \<and> ctx_options ctx8 = ctx_options ctx6
        \<and> (\<forall>j. j \<noteq> Txt \<longrightarrow> slot j (out ctx8) = slot j (out ctx6))"
      using wt by (auto simp: maybe_write_txt_def write_headers_def Let_def split: option.splits)
        (case_tac j; simp)+
    show "song ctx9 = song ctx4" using T C P s8 by (simp add: carried_def)
    show "ctx_options ctx9 = ctx_options ctx4" using T C P s8 by (simp add: carried_def)
    show "\<forall>j. j \<noteq> Txt \<longrightarrow> ident (slot j (out ctx9)) = ident (slot j (out ctx4))"
      using P s8 i6 by (simp add: carried_def)
    show "ident (slot Txt (out ctx4)) = None \<longrightarrow>
         ident (slot Txt (out ctx9)) = txt_ident e (ctx_options ctx4) (song_id (song ctx4))"
    proof
      assume "ident (slot Txt (out ctx4)) = None"
      then have "ident (slot Txt (out (ctx6\<lparr>ctx_locations := loc7\<rparr>))) = None" using i6 [of Txt] by simp
      moreover have "ident (slot Txt (out ctx9)) = ident (slot Txt (out ctx8))"
        using P unfolding carried_def by blast
      moreover have "song ctx6 = song ctx4 \<and> ctx_options ctx6 = ctx_options ctx4"
        using T C by (simp add: carried_def)
      ultimately show "ident (slot Txt (out ctx9)) = txt_ident e (ctx_options ctx4) (song_id (song ctx4))"
        using write_txt_frame [OF wt] by simp
    qed
  qed
qed

lemma fetched_get_usdb_data: "get_usdb_data e i w = (r, w') \<Longrightarrow> fetched w' = fetched w"
  by (auto simp: get_usdb_data_def Let_def split: sum.splits)

lemma sync_meta_update_song [simp]: "sync_meta (update_song_with_usdb_data s d t) = sync_meta s"
  by (simp add: update_song_with_usdb_data_def)

lemma song_id_update_song [simp]: "song_id (update_song_with_usdb_data s d t) = song_id s"
  by (simp add: update_song_with_usdb_data_def)

lemma slot_empty_files [simp]: "slot k empty_files = empty_file"
  by (cases k) (simp_all add: empty_files_def)

lemma Context_new_Inr:
  assumes "Context_new e sng opts tmp w = (Inr ctx0, w0)"
  shows "fetched w0 = fetched w" and "ctx_options ctx0 = opts" and "song_id (song ctx0) = song_id sng"
    and "slot Txt (out ctx0) = empty_file"
    and "sync_meta (song ctx0) \<noteq> None"
    and "sync_meta sng = Some sm \<Longrightarrow> sync_meta (song ctx0) = Some sm
          \<and> folder (ctx_locations ctx0) = path_parent (sm_path sm)
          \<and> (k \<noteq> Txt \<longrightarrow> slot k (out ctx0) = seed e (ctx_locations ctx0) (sm_file k sm) empty_file)"
    and "sync_meta sng = None \<Longrightarrow> slot k (out ctx0) = empty_file"
proof -
  from assms obtain d t where gd: "get_usdb_data e (song_id sng) w = (Inr (d, t), w0)"
    by (auto simp: Context_new_def Let_def split: prod.splits sum.splits)
  from assms gd obtain paths where
    loc: "Locations_new e w0 (update_song_with_usdb_data sng d t) (song_dir opts) (txt_headers t) tmp = Inr paths"
    by (auto simp: Context_new_def Let_def split: prod.splits sum.splits)
  let ?s1 = "update_song_with_usdb_data sng d t"
  let ?s2 = "if sync_meta ?s1 = None
      then ?s1\<lparr>sync_meta := Some (SyncMeta_new e (song_id ?s1) (folder paths) (txt_meta_tags t))\<rparr> else ?s1"
  have c0: "ctx0 = attrs_post_init e \<lparr>song = ?s2, details = d, ctx_options = opts, ctx_txt = t,
                           ctx_locations = paths, out = empty_files\<rparr>"
    using assms gd loc by (simp add: Context_new_def Let_def)
  show "fetched w0 = fetched w" using fetched_get_usdb_data [OF gd] .
  show "ctx_options ctx0 = opts" unfolding c0 by (simp add: attrs_post_init_def split: option.splits)
  show "song_id (song ctx0) = song_id sng" unfolding c0 by (simp add: attrs_post_init_def split: option.splits)
  show "slot Txt (out ctx0) = empty_file"
    unfolding c0 by (simp add: attrs_post_init_def empty_files_def split: option.splits)
  show "sync_meta (song ctx0) \<noteq> None" unfolding c0 by (simp add: attrs_post_init_def split: option.splits)
  show "sync_meta (song ctx0) = Some sm
          \<and> folder (ctx_locations ctx0) = path_parent (sm_path sm)
          \<and> (k \<noteq> Txt \<longrightarrow> slot k (out ctx0) = seed e (ctx_locations ctx0) (sm_file k sm) empty_file)"
    if "sync_meta sng = Some sm"
  proof -
    have "folder paths = path_parent (sm_path sm)"
      using loc that by (auto simp: Locations_new_def Let_def)
    then show ?thesis
      unfolding c0 using that
      by (cases k) (simp_all add: attrs_post_init_def empty_files_def)
  qed
  show "slot k (out ctx0) = empty_file" if "sync_meta sng = None"
    unfolding c0 using that
    by (cases k) (simp_all add: attrs_post_init_def empty_files_def SyncMeta_new_def seed_def)
qed

lemma write_sync_meta_files:
  assumes "write_sync_meta e ctx w = (ctx', w')"
  shows "\<exists>sm'. sync_meta (song ctx') = Some sm'
     \<and> (\<forall>j. map_option rf_resource (sm_file j sm') = ident (slot j (out ctx)))"
    and "fetched w' = fetched w"
proof -
  let ?sm = "the (sync_meta (song ctx'))"
  have s: "sync_meta (song ctx') = Some ?sm" using assms by (auto simp: write_sync_meta_def Let_def)
  have "map_option rf_resource (sm_file j ?sm) = ident (slot j (out ctx))" for j
    using assms by (cases j) (auto simp: write_sync_meta_def Let_def ident_def)
  with s show "\<exists>sm'. sync_meta (song ctx') = Some sm'
     \<and> (\<forall>j. map_option rf_resource (sm_file j sm') = ident (slot j (out ctx)))" by blast
  show "fetched w' = fetched w" using assms by (auto simp: write_sync_meta_def Let_def)
qed

lemma run_inner_Inr:
  assumes "run_inner e l w = (Inr s', l', w')"
  shows "\<exists>ctx0 w0 ctx4 w4 sm'.
      Context_new e ((loader_song l)\<lparr>status := DOWNLOADING\<rparr>) (loader_options l) (mkdtemp e) (start_world e l w)
        = (Inr ctx0, w0)
    \<and> downloads e ctx0 w0 = (ctx4, w4)
    \<and> fetched w0 = fetched w
    \<and> fetched w' = fetched w4
    \<and> sync_meta s' = Some sm'
    \<and> (\<forall>j. j \<noteq> Txt \<longrightarrow> map_option rf_resource (sm_file j sm') = ident (slot j (out ctx4)))
    \<and> map_option rf_resource (sm_file Txt sm') = txt_ident e (loader_options l) (song_id (loader_song l))"
proof -
  let ?sng = "(loader_song l)\<lparr>status := DOWNLOADING\<rparr>"
  from assms obtain ctx9 w9 where
    rs: "run_stages e ?sng (loader_options l) (mkdtemp e) (start_world e l w) = (Inr ctx9, w9)"
    by (auto simp: run_inner_def Let_def start_world_def split: prod.splits sum.splits)
  obtain c' w'' where ws: "write_sync_meta e ctx9 (remove_tree (mkdtemp e) w9) = (c', w'')"
    by (cases "write_sync_meta e ctx9 (remove_tree (mkdtemp e) w9)") auto
  have res: "s' = song c'" "w' = w''"
    using assms rs ws by (auto simp: run_inner_def Let_def start_world_def)
  from run_stages_Inr [OF rs] obtain ctx0 w0 ctx4 w4 where
    cn: "Context_new e ?sng (loader_options l) (mkdtemp e) (start_world e l w) = (Inr ctx0, w0)"
    and dl: "downloads e ctx0 w0 = (ctx4, w4)" and f9: "fetched w9 = fetched w4"
    and s9: "song ctx9 = song ctx4" and o9: "ctx_options ctx9 = ctx_options ctx4"
    and i9: "\<forall>j. j \<noteq> Txt \<longrightarrow> ident (slot j (out ctx9)) = ident (slot j (out ctx4))"
    and t9: "ident (slot Txt (out ctx4)) = None \<longrightarrow>
         ident (slot Txt (out ctx9)) = txt_ident e (ctx_options ctx4) (song_id (song ctx4))"
    by (elim exE conjE) (rule that)
  note CN = Context_new_Inr [OF cn]
  have t4: "slot Txt (out ctx4) = empty_file"
    using slot_downloads [OF dl, of Txt] CN(4) by simp
  then have "ident (slot Txt (out ctx4)) = None"
    by (simp add: ident_eq empty_file_def path_of_def truthy_def)
  with t9 have tx: "ident (slot Txt (out ctx9)) = txt_ident e (loader_options l) (song_id (loader_song l))"
    using fields_downloads [OF dl] CN(2,3) by simp
  from write_sync_meta_files [OF ws] obtain sm' where
    sm: "sync_meta (song c') = Some sm'"
    and files: "\<forall>j. map_option rf_resource (sm_file j sm') = ident (slot j (out ctx9))"
    and fw: "fetched w'' = fetched (remove_tree (mkdtemp e) w9)"
    by blast
  show ?thesis
  proof (intro exI conjI)
    show "Context_new e ?sng (loader_options l) (mkdtemp e) (start_world e l w) = (Inr ctx0, w0)" by (rule cn)
    show "downloads e ctx0 w0 = (ctx4, w4)" by (rule dl)
    show "fetched w0 = fetched w" using CN(1) by (simp add: start_world_def)
    show "fetched w' = fetched w4" using res fw f9 by simp
    show "sync_meta s' = Some sm'" using res sm by simp
    show "\<forall>j. j \<noteq> Txt \<longrightarrow> map_option rf_resource (sm_file j sm') = ident (slot j (out ctx4))"
      using files i9 by simp
    show "map_option rf_resource (sm_file Txt sm') = txt_ident e (loader_options l) (song_id (loader_song l))"
      using files tx by metis
  qed
qed

text \<open>
  C4: a slot seeded from the prior sync record (the record holds a file for it, the file
  is in sync with the folder, and its resource string is not empty) keeps its resource
  identifier when every fetch made for that slot during the run fails: the record
  committed by a successful run holds a file for the slot with the same identifier.
\<close>

theorem keep_on_failure:
  assumes run: "run_inner e l w = (Inr s', l', w')"
    and rec: "sync_meta (loader_song l) = Some sm"
    and old: "sm_file k sm = Some rf"
    and k: "k \<noteq> Txt"
    and sync: "is_in_sync e rf (path_parent (sm_path sm))"
    and res: "rf_resource rf \<noteq> []"
    and fail: "\<forall>c\<in>set (fetched w'). fetch_kind c = k \<longrightarrow> \<not> fetch_ok e c"
  shows "\<exists>sm' rf'. sync_meta s' = Some sm' \<and> sm_file k sm' = Some rf' \<and> rf_resource rf' = rf_resource rf"
proof -
  from run_inner_Inr [OF run] obtain ctx0 w0 ctx4 w4 sm' where
    cn: "Context_new e ((loader_song l)\<lparr>status := DOWNLOADING\<rparr>) (loader_options l) (mkdtemp e) (start_world e l w)
        = (Inr ctx0, w0)"
    and dl: "downloads e ctx0 w0 = (ctx4, w4)"
    and fw: "fetched w' = fetched w4"
    and sm': "sync_meta s' = Some sm'"
    and ids: "\<forall>j. j \<noteq> Txt \<longrightarrow> map_option rf_resource (sm_file j sm') = ident (slot j (out ctx4))"
    by blast
  have rec': "sync_meta ((loader_song l)\<lparr>status := DOWNLOADING\<rparr>) = Some sm" using rec by simp
  from Context_new_Inr(6) [OF cn rec', of k] k old sync
  have s0: "slot k (out ctx0) = empty_file\<lparr>resource := Some (rf_resource rf),
      old_path := Some (file_path (ctx_locations ctx0) (fname rf) [])\<rparr>"
    by (simp add: seed_def)
  have none: "fst (stage_res e ctx0 k) = None"
  proof (rule ccontr)
    assume "fst (stage_res e ctx0 k) \<noteq> None"
    then obtain r p where "fst (stage_res e ctx0 k) = Some (r, p)" by auto
    from stage_res_success [OF this] obtain c where
      c: "c \<in> set (snd (stage_res e ctx0 k))" "fetch_kind c = k" "fetch_ok e c" by blast
    have "c \<in> set (fetched w4)"
      using c(1) downloads_spec(2) [OF dl] by (cases k) auto
    with fail fw c show False by simp
  qed
  have "slot k (out ctx4) = slot k (out ctx0)"
    using slot_downloads [OF dl, of k] none by simp
  then have "ident (slot k (out ctx4)) = Some (rf_resource rf)"
    using s0 res by (simp add: ident_eq path_of_def truthy_def empty_file_def)
  with ids k have "map_option rf_resource (sm_file k sm') = Some (rf_resource rf)" by simp
  then obtain rf' where "sm_file k sm' = Some rf'" "rf_resource rf' = rf_resource rf" by auto
  with sm' show ?thesis by blast
qed

theorem keep_on_failure_witness:
  "fetched (snd (snd (run_inner ex_env ex_loader_kept ex_world_kept)))
     = [FetchAudio ''urlA'', FetchAudio ''urlV'', FetchVideo ''urlV'']
   \<and> sm_file Audio ex_sync_meta = Some \<lparr>fname = ''old.m4a'', rf_resource = ''urlOld''\<rparr>
   \<and> map_option rf_resource
        (sm_file Audio (the (sync_meta (projr (fst (run_inner ex_env ex_loader_kept ex_world_kept))))))
     = Some ''urlOld''"
proof -
  let ?R = "run_inner ex_env ex_loader_kept ex_world_kept"
  have i: "\<not> isl (fst ?R)" by code_simp
  have r: "?R = (Inr (projr (fst ?R)), fst (snd ?R), snd (snd ?R))"
    using i by (cases "fst ?R") (auto simp: prod_eq_iff)
  have f: "fetched (snd (snd ?R)) = [FetchAudio ''urlA'', FetchAudio ''urlV'', FetchVideo ''urlV'']"
    by code_simp
  have fail: "\<forall>c\<in>set (fetched (snd (snd ?R))). fetch_kind c = Audio \<longrightarrow> \<not> fetch_ok ex_env c"
    unfolding f by (simp add: ex_env_def truthy_def)
  have rec: "sync_meta (loader_song ex_loader_kept) = Some ex_sync_meta"
    by (simp add: ex_loader_kept_def)
  have old: "sm_file Audio ex_sync_meta = Some \<lparr>fname = ''old.m4a'', rf_resource = ''urlOld''\<rparr>"
    by (simp add: ex_sync_meta_def)
  have sync: "is_in_sync ex_env \<lparr>fname = ''old.m4a'', rf_resource = ''urlOld''\<rparr> (path_parent (sm_path ex_sync_meta))"
    by (simp add: ex_env_def)
  have "\<exists>sm' rf'. sync_meta (projr (fst ?R)) = Some sm' \<and> sm_file Audio sm' = Some rf'
      \<and> rf_resource rf' = rf_resource \<lparr>fname = ''old.m4a'', rf_resource = ''urlOld''\<rparr>"
    using keep_on_failure [OF r rec old _ sync _ fail] by simp
  then show ?thesis using f old by auto
qed

lemma yields_video: "yields (all_video_resources ctx) = video_candidates (details ctx) (ctx_txt ctx)"
  by (auto simp: all_video_resources_def video_candidates_def yields_append yields_map_Yield truthy_def
      split: option.splits)

lemma yields_audio: "yields (all_audio_resources ctx) = audio_candidates (details ctx) (ctx_txt ctx)"
  by (auto simp: all_audio_resources_def audio_candidates_def yields_append yields_video truthy_def
      split: option.splits)

lemma cover_candidate_image: "cover_candidate ctx = image_candidate (details ctx) (ctx_txt ctx) COVER"
  by (simp add: cover_candidate_def image_candidate_def)

lemma stage_res_pick:
  "map_option fst (fst (stage_res e ctx k))
     = fst (stage_pick e (ctx_options ctx) (details ctx) (ctx_txt ctx) k (resource (slot k (out ctx))))
   \<and> snd (stage_res e ctx k)
     = snd (stage_pick e (ctx_options ctx) (details ctx) (ctx_txt ctx) k (resource (slot k (out ctx))))"
  by (cases k)
     (auto simp: stage_res_def stage_pick_def stage_enabled_def yields_audio yields_video
        cover_candidate_image image_candidate_def option.map_comp comp_def case_prod_beta
        split: prod.splits option.splits)

lemma walk_take: "walk dl n cs s = walk dl n (take n cs) s"
  by (induction dl n cs s rule: walk.induct) (auto split: prod.splits)

lemma walk_first: "cs = [] \<or> s = Some (hd cs) \<Longrightarrow> walk dl n cs s = (None, [])"
  by (cases cs; cases n) auto

lemma walk_idem:
  "fst (walk dl n cs s) = Some (r, ext) \<Longrightarrow> fst (walk dl n cs (Some r)) = None"
proof (induction dl n cs s rule: walk.induct)
  case (3 dl n c cs s)
  show ?case
  proof (cases "c = r")
    case True
    then show ?thesis by simp
  next
    case False
    with 3 show ?thesis by (auto split: if_splits prod.splits)
  qed
qed simp_all

lemma walk_empty_seed:
  "[] \<notin> set cs \<Longrightarrow> walk dl n cs (Some []) = walk dl n cs None"
  by (induction dl n cs "None :: string option" rule: walk.induct) (auto split: prod.splits)

lemma image_walk_idem:
  "fst (image_walk dl u s) = Some (r, p) \<Longrightarrow> image_walk dl u (Some r) = (None, [])"
  by (auto simp: image_walk_def truthy_def split: if_splits option.splits)

lemma image_walk_empty_seed: "image_walk dl u (Some []) = image_walk dl u None"
  by (auto simp: image_walk_def truthy_def split: option.splits)

lemma image_walk_nonempty: "fst (image_walk dl u s) = Some (r, p) \<Longrightarrow> r \<noteq> []"
  by (auto simp: image_walk_def truthy_def split: if_splits option.splits)

lemma pick_idem:
  assumes "fst (stage_pick e opts d t k s) = Some r"
  shows "fst (stage_pick e opts d t k (Some r)) = None"
proof (cases k)
  case Txt
  with assms show ?thesis by (auto simp: stage_pick_def split: if_splits)
next
  case Audio
  with assms obtain ext where "fst (walk (download_audio e) 10 (audio_candidates d t) s) = Some (r, ext)"
    by (auto simp: stage_pick_def split: if_splits prod.splits)
  from walk_idem [OF this] Audio show ?thesis
    by (auto simp: stage_pick_def split: prod.splits)
next
  case Video
  with assms obtain ext where "fst (walk (download_video e) 10 (video_candidates d t) s) = Some (r, ext)"
    by (auto simp: stage_pick_def split: if_splits prod.splits)
  from walk_idem [OF this] Video show ?thesis
    by (auto simp: stage_pick_def split: prod.splits)
next
  case Cover
  with assms obtain p where
    "fst (image_walk (download_and_process_image e COVER) (image_candidate d t COVER) s) = Some (r, p)"
    by (auto simp: stage_pick_def split: if_splits prod.splits)
  from image_walk_idem [OF this] Cover show ?thesis
    by (auto simp: stage_pick_def split: prod.splits)
next
  case Background
  with assms obtain p where
    "fst (image_walk (download_and_process_image e BACKGROUND) (image_candidate d t BACKGROUND) s) = Some (r, p)"
    by (auto simp: stage_pick_def split: if_splits prod.splits)
  from image_walk_idem [OF this] Background show ?thesis
    by (auto simp: stage_pick_def split: prod.splits)
qed

lemma pick_nonempty:
  assumes "fst (stage_pick e opts d t k s) = Some r" and "[] \<notin> set (all_comment_videos d)"
  shows "r \<noteq> []"
proof (cases k)
  case Txt
  with assms show ?thesis by (auto simp: stage_pick_def split: if_splits)
next
  case Audio
  with assms obtain ext where "fst (walk (download_audio e) 10 (audio_candidates d t) s) = Some (r, ext)"
    by (auto simp: stage_pick_def split: if_splits prod.splits)
  from walk_success [OF this] have "r \<in> set (audio_candidates d t)" by simp
  with assms(2) show ?thesis
    by (auto simp: audio_candidates_def video_candidates_def truthy_def split: if_splits option.splits)
next
  case Video
  with assms obtain ext where "fst (walk (download_video e) 10 (video_candidates d t) s) = Some (r, ext)"
    by (auto simp: stage_pick_def split: if_splits prod.splits)
  from walk_success [OF this] have "r \<in> set (video_candidates d t)" by simp
  with assms(2) show ?thesis
    by (auto simp: video_candidates_def truthy_def split: if_splits option.splits)
next
  case Cover
  with assms obtain p where
    "fst (image_walk (download_and_process_image e COVER) (image_candidate d t COVER) s) = Some (r, p)"
    by (auto simp: stage_pick_def split: if_splits prod.splits)
  from image_walk_nonempty [OF this] show ?thesis .
next
  case Background
  with assms obtain p where
    "fst (image_walk (download_and_process_image e BACKGROUND) (image_candidate d t BACKGROUND) s) = Some (r, p)"
    by (auto simp: stage_pick_def split: if_splits prod.splits)
  from image_walk_nonempty [OF this] show ?thesis .
qed

lemma pick_empty_seed:
  assumes "[] \<notin> set (all_comment_videos d)"
  shows "stage_pick e opts d t k (Some []) = stage_pick e opts d t k None"
proof -
  have a: "[] \<notin> set (audio_candidates d t)" and v: "[] \<notin> set (video_candidates d t)"
    using assms by (auto simp: audio_candidates_def video_candidates_def truthy_def split: option.splits)
  show ?thesis
    by (cases k) (simp_all add: stage_pick_def walk_empty_seed [OF a] walk_empty_seed [OF v] image_walk_empty_seed)
qed

lemma pick_first:
  assumes "\<not> stage_enabled opts t k \<or> stage_candidates d t k = [] \<or> s = Some (hd (stage_candidates d t k))"
  shows "stage_pick e opts d t k s = (None, [])"
proof (cases "stage_enabled opts t k")
  case False
  then show ?thesis by (simp add: stage_pick_def)
next
  case True
  with assms have c: "stage_candidates d t k = [] \<or> s = Some (hd (stage_candidates d t k))" by simp
  show ?thesis
  proof (cases k)
    case Txt
    then show ?thesis by (auto simp: stage_pick_def split: if_splits)
  next
    case Audio
    with c have "walk (download_audio e) 10 (take 10 (audio_candidates d t)) s = (None, [])"
      by (intro walk_first) (simp add: stage_candidates_def)
    then show ?thesis using Audio True by (simp add: stage_pick_def walk_take [symmetric])
  next
    case Video
    with c have "walk (download_video e) 10 (take 10 (video_candidates d t)) s = (None, [])"
      by (intro walk_first) (simp add: stage_candidates_def)
    then show ?thesis using Video True by (simp add: stage_pick_def walk_take [symmetric])
  next
    case Cover
    with c True show ?thesis
      by (auto simp: stage_pick_def stage_candidates_def image_walk_def truthy_def split: if_splits option.splits)
  next
    case Background
    with c True show ?thesis
      by (auto simp: stage_pick_def stage_candidates_def image_walk_def truthy_def split: if_splits option.splits)
  qed
qed

lemma committed_idem:
  assumes "[] \<notin> set (all_comment_videos d)"
  shows "committed e opts d t k (committed e opts d t k s) = committed e opts d t k s"
proof (cases "fst (stage_pick e opts d t k s)")
  case (Some r)
  from pick_nonempty [OF Some assms] pick_idem [OF Some] Some show ?thesis
    by (simp add: committed_def truthy_def)
next
  case None
  show ?thesis
  proof (cases "truthy s")
    case True
    with None show ?thesis by (simp add: committed_def)
  next
    case False
    then have "s = None \<or> s = Some []" by (cases s) (auto simp: truthy_def)
    then have "fst (stage_pick e opts d t k None) = None"
      using None pick_empty_seed [OF assms, of e opts t k] by auto
    with None False show ?thesis by (simp add: committed_def truthy_def)
  qed
qed

lemma committed_first:
  assumes "\<not> stage_enabled opts t k \<or> stage_candidates d t k = [] \<or> s = Some (hd (stage_candidates d t k))"
  shows "snd (stage_pick e opts d t k s) = []"
  using pick_first [OF assms] by simp

lemma creator_candidates [simp]:
  "stage_pick e opts d (t\<lparr>txt_headers := (txt_headers t)\<lparr>h_creator := c\<rparr>\<rparr>) k s = stage_pick e opts d t k s"
  by (cases k)
     (simp_all add: stage_pick_def stage_enabled_def audio_candidates_def video_candidates_def
        image_candidate_def cong: option.case_cong if_cong)

lemma Context_new_data:
  assumes "Context_new e sng opts tmp w = (Inr ctx0, w0)"
  shows "\<exists>d t c. get_usdb_details e (song_id sng) = Inr d \<and> get_notes_parsed e (sd_song_id d) = Inr t
    \<and> details ctx0 = d \<and> ctx_txt ctx0 = t\<lparr>txt_headers := (txt_headers t)\<lparr>h_creator := c\<rparr>\<rparr>"
proof -
  from assms obtain d t' where gd: "get_usdb_data e (song_id sng) w = (Inr (d, t'), w0)"
    by (auto simp: Context_new_def Let_def split: prod.splits sum.splits)
  from assms gd have c0: "details ctx0 = d \<and> ctx_txt ctx0 = t'"
    by (auto simp: Context_new_def Let_def attrs_post_init_def split: prod.splits sum.splits option.splits)
  from gd obtain t c where "get_usdb_details e (song_id sng) = Inr d" "get_notes_parsed e (sd_song_id d) = Inr t"
    "t' = t\<lparr>txt_headers := (txt_headers t)\<lparr>h_creator := c\<rparr>\<rparr>"
    by (auto simp: get_usdb_data_def Let_def split: sum.splits)
  with c0 show ?thesis by blast
qed

lemma Context_new_seeded:
  assumes "Context_new e sng opts tmp w = (Inr ctx0, w0)" and "k \<noteq> Txt"
  shows "slot k (out ctx0) =
     (case seeded e sng k of None \<Rightarrow> empty_file
      | Some r \<Rightarrow> empty_file\<lparr>resource := Some r, old_path := old_path (slot k (out ctx0))\<rparr>)
    \<and> (seeded e sng k \<noteq> None \<longrightarrow> old_path (slot k (out ctx0)) \<noteq> None)"
proof (cases "sync_meta sng")
  case None
  with Context_new_Inr(7) [OF assms(1) None, of k] show ?thesis by (simp add: seeded_def)
next
  case (Some sm)
  from Context_new_Inr(6) [OF assms(1) Some, of k] assms(2)
  have "slot k (out ctx0) = seed e (ctx_locations ctx0) (sm_file k sm) empty_file"
    and "folder (ctx_locations ctx0) = path_parent (sm_path sm)" by simp_all
  with Some show ?thesis
    by (auto simp: seeded_def seed_def empty_file_def split: option.splits)
qed

lemma ident_downloads:
  assumes cn: "Context_new e sng opts tmp w = (Inr ctx0, w0)"
    and dl: "downloads e ctx0 w0 = (ctx4, w4)"
    and k: "k \<noteq> Txt"
  shows "ident (slot k (out ctx4))
     = committed e (ctx_options ctx0) (details ctx0) (ctx_txt ctx0) k (seeded e sng k)"
proof -
  note S = Context_new_seeded [OF cn k]
  have r0: "resource (slot k (out ctx0)) = seeded e sng k"
    using S by (auto simp: empty_file_def split: option.splits)
  have n0: "new_path (slot k (out ctx0)) = None"
    using S by (auto simp: empty_file_def split: option.splits)
  have o0: "old_path (slot k (out ctx0)) = None \<longleftrightarrow> seeded e sng k = None"
    using S by (auto simp: empty_file_def split: option.splits)
  note P = stage_res_pick [of e ctx0 k, unfolded r0]
  show ?thesis
  proof (cases "fst (stage_res e ctx0 k)")
    case None
    then have "slot k (out ctx4) = slot k (out ctx0)" using slot_downloads [OF dl, of k] by simp
    moreover have "fst (stage_pick e (ctx_options ctx0) (details ctx0) (ctx_txt ctx0) k (seeded e sng k)) = None"
      using P None by simp
    ultimately show ?thesis
      using r0 n0 o0 by (auto simp: committed_def ident_eq path_of_def truthy_def split: option.splits)
  next
    case (Some rp)
    obtain r p where rp: "rp = (r, p)" by (cases rp) auto
    then have "slot k (out ctx4) = (slot k (out ctx0))\<lparr>resource := Some r, new_path := Some p\<rparr>"
      using slot_downloads [OF dl, of k] Some by simp
    moreover have "fst (stage_pick e (ctx_options ctx0) (details ctx0) (ctx_txt ctx0) k (seeded e sng k)) = Some r"
      using P Some rp by simp
    ultimately show ?thesis
      by (auto simp: committed_def ident_eq path_of_def truthy_def)
  qed
qed

lemma song_id_write_sync_meta: "song_id (song (fst (write_sync_meta e ctx w))) = song_id (song ctx)"
  by (simp add: write_sync_meta_def Let_def)

lemma run_idents:
  assumes run: "run_inner e l w = (Inr s', l', w')"
    and d: "get_usdb_details e (song_id (loader_song l)) = Inr d"
    and t: "get_notes_parsed e (sd_song_id d) = Inr t"
  shows "\<exists>sm'. sync_meta s' = Some sm'
    \<and> map_option rf_resource (sm_file Txt sm') = txt_ident e (loader_options l) (song_id (loader_song l))
    \<and> (\<forall>k. k \<noteq> Txt \<longrightarrow> map_option rf_resource (sm_file k sm')
          = committed e (loader_options l) d t k (seeded e (loader_song l) k))"
    and "fetched w' = fetched w
          @ concat (map (\<lambda>k. snd (stage_pick e (loader_options l) d t k (seeded e (loader_song l) k))) download_kinds)"
proof -
  let ?sng = "(loader_song l)\<lparr>status := DOWNLOADING\<rparr>"
  from run_inner_Inr [OF run] obtain ctx0 w0 ctx4 w4 sm' where
    cn: "Context_new e ?sng (loader_options l) (mkdtemp e) (start_world e l w) = (Inr ctx0, w0)"
    and dl: "downloads e ctx0 w0 = (ctx4, w4)"
    and f0: "fetched w0 = fetched w"
    and fw: "fetched w' = fetched w4"
    and sm': "sync_meta s' = Some sm'"
    and ids: "\<forall>j. j \<noteq> Txt \<longrightarrow> map_option rf_resource (sm_file j sm') = ident (slot j (out ctx4))"
    and tx: "map_option rf_resource (sm_file Txt sm') = txt_ident e (loader_options l) (song_id (loader_song l))"
    by (elim exE conjE) (rule that)
  from Context_new_data [OF cn] d t obtain c where
    dat: "details ctx0 = d" "ctx_txt ctx0 = t\<lparr>txt_headers := (txt_headers t)\<lparr>h_creator := c\<rparr>\<rparr>"
    by auto
  have opts: "ctx_options ctx0 = loader_options l" using Context_new_Inr(2) [OF cn] .
  have sd: "seeded e ?sng k = seeded e (loader_song l) k" for k by (simp add: seeded_def)
  have com: "ident (slot k (out ctx4)) = committed e (loader_options l) d t k (seeded e (loader_song l) k)"
    if "k \<noteq> Txt" for k
    using ident_downloads [OF cn dl that] by (simp add: dat opts sd committed_def)
  show "\<exists>sm'. sync_meta s' = Some sm'
    \<and> map_option rf_resource (sm_file Txt sm') = txt_ident e (loader_options l) (song_id (loader_song l))
    \<and> (\<forall>k. k \<noteq> Txt \<longrightarrow> map_option rf_resource (sm_file k sm')
          = committed e (loader_options l) d t k (seeded e (loader_song l) k))"
    using sm' tx ids com by auto
  have res: "snd (stage_res e ctx0 k) = snd (stage_pick e (loader_options l) d t k (seeded e (loader_song l) k))"
    if "k \<noteq> Txt" for k
  proof -
    have "resource (slot k (out ctx0)) = seeded e ?sng k"
      using Context_new_seeded [OF cn that] by (auto simp: empty_file_def split: option.splits)
    then show ?thesis using stage_res_pick [of e ctx0 k] by (simp add: dat opts sd)
  qed
  show "fetched w' = fetched w
          @ concat (map (\<lambda>k. snd (stage_pick e (loader_options l) d t k (seeded e (loader_song l) k))) download_kinds)"
    using downloads_spec(2) [OF dl] fw f0 res by (simp add: download_kinds_def)
qed

lemma run_inner_song_id:
  assumes "run_inner e l w = (Inr s', l', w')"
  shows "song_id s' = song_id (loader_song l)"
proof -
  let ?sng = "(loader_song l)\<lparr>status := DOWNLOADING\<rparr>"
  from assms obtain ctx9 w9 where
    rs: "run_stages e ?sng (loader_options l) (mkdtemp e) (start_world e l w) = (Inr ctx9, w9)"
    by (auto simp: run_inner_def Let_def start_world_def split: prod.splits sum.splits)
  have s': "s' = song (fst (write_sync_meta e ctx9 (remove_tree (mkdtemp e) w9)))"
    using assms rs by (auto simp: run_inner_def Let_def start_world_def split: prod.splits)
  from run_stages_Inr [OF rs] obtain ctx0 w0 ctx4 w4 where
    cn: "Context_new e ?sng (loader_options l) (mkdtemp e) (start_world e l w) = (Inr ctx0, w0)"
    and dl: "downloads e ctx0 w0 = (ctx4, w4)" and s9: "song ctx9 = song ctx4"
    by (elim exE conjE) (rule that)
  show ?thesis
    using s9 fields_downloads(1) [OF dl] Context_new_Inr(3) [OF cn]
    by (simp add: s' song_id_write_sync_meta)
qed

text \<open>
  C2, as the code has it. Two successful runs for a song, the second on the song the
  first returned, against the same remote data and fetchers (no candidate being the
  empty string), with every file of the first run's record in sync at the second run.
  The record of the second run has the resource identifiers of the first run's record.
  The second run makes no fetch when, for every kind, the stage is disabled, or has no
  candidate, or its first candidate is the identifier the first run recorded.
\<close>

theorem second_run:
  assumes run1: "run_inner e l w = (Inr s1, l1, w1)"
    and run2: "run_inner (e\<lparr>is_in_sync := sync2\<rparr>) (l\<lparr>loader_song := s1\<lparr>status := st\<rparr>\<rparr>) wa = (Inr s2, l2, w2)"
    and d: "get_usdb_details e (song_id (loader_song l)) = Inr d"
    and t: "get_notes_parsed e (sd_song_id d) = Inr t"
    and urls: "[] \<notin> set (all_comment_videos d)"
    and sm1: "sync_meta s1 = Some sm1"
    and sm2: "sync_meta s2 = Some sm2"
    and files: "\<forall>k rf. sm_file k sm1 = Some rf \<longrightarrow> sync2 rf (path_parent (sm_path sm1))"
  shows "(\<forall>k. map_option rf_resource (sm_file k sm2) = map_option rf_resource (sm_file k sm1))
    \<and> ((\<forall>k. \<not> stage_enabled (loader_options l) t k \<or> stage_candidates d t k = []
              \<or> map_option rf_resource (sm_file k sm1) = Some (hd (stage_candidates d t k)))
        \<longrightarrow> fetched w2 = fetched wa)"
proof -
  let ?e2 = "e\<lparr>is_in_sync := sync2\<rparr>"
  let ?l2 = "l\<lparr>loader_song := s1\<lparr>status := st\<rparr>\<rparr>"
  let ?opts = "loader_options l"
  have sid: "song_id s1 = song_id (loader_song l)" using run_inner_song_id [OF run1] .
  have d2: "get_usdb_details ?e2 (song_id (loader_song ?l2)) = Inr d" using d sid by simp
  have t2: "get_notes_parsed ?e2 (sd_song_id d) = Inr t" using t by simp
  have pick2: "stage_pick ?e2 opts d t k s = stage_pick e opts d t k s" for opts k s
    by (cases k) (simp_all add: stage_pick_def)
  have com2: "committed ?e2 opts d t k s = committed e opts d t k s" for opts k s
    by (simp add: committed_def pick2)
  have tid2: "txt_ident ?e2 opts i = txt_ident e opts i" for opts i
    by (simp add: txt_ident_def)
  from run_idents(1) [OF run1 d t] sm1 have
    tx1: "map_option rf_resource (sm_file Txt sm1) = txt_ident e ?opts (song_id (loader_song l))"
    and id1: "\<And>k. k \<noteq> Txt \<Longrightarrow> map_option rf_resource (sm_file k sm1)
          = committed e ?opts d t k (seeded e (loader_song l) k)"
    by auto
  from run_idents(1) [OF run2 d2 t2] sm2 have
    tx2: "map_option rf_resource (sm_file Txt sm2) = txt_ident e ?opts (song_id (loader_song l))"
    and id2: "\<And>k. k \<noteq> Txt \<Longrightarrow> map_option rf_resource (sm_file k sm2)
          = committed e ?opts d t k (seeded ?e2 (s1\<lparr>status := st\<rparr>) k)"
    by (auto simp: com2 tid2 sid)
  have sd2: "seeded ?e2 (s1\<lparr>status := st\<rparr>) k = map_option rf_resource (sm_file k sm1)" for k
    using sm1 files by (auto simp: seeded_def split: option.splits)
  have same: "map_option rf_resource (sm_file k sm2) = map_option rf_resource (sm_file k sm1)" for k
  proof (cases "k = Txt")
    case True
    with tx1 tx2 show ?thesis by simp
  next
    case False
    then show ?thesis
      using id1 [OF False] id2 [OF False] committed_idem [OF urls, of e ?opts t k "seeded e (loader_song l) k"]
      by (simp add: sd2)
  qed
  have nofetch: "fetched w2 = fetched wa"
    if "\<forall>k. \<not> stage_enabled ?opts t k \<or> stage_candidates d t k = []
              \<or> map_option rf_resource (sm_file k sm1) = Some (hd (stage_candidates d t k))"
  proof -
    have "snd (stage_pick e ?opts d t k (map_option rf_resource (sm_file k sm1))) = []" for k
      using that by (intro committed_first) blast
    then show ?thesis
      using run_idents(2) [OF run2 d2 t2] by (simp add: pick2 sd2 download_kinds_def)
  qed
  from same nofetch show ?thesis by blast
qed

text \<open>
  C2, as it is stated, fails: the audio candidates are \<^verbatim>\<open>urlA\<close>, which cannot be
  fetched, and \<^verbatim>\<open>urlV\<close>, which can. The first run records \<^verbatim>\<open>urlV\<close>; the second run,
  with nothing changed, fetches \<^verbatim>\<open>urlA\<close> again before it reaches the recorded
  \<^verbatim>\<open>urlV\<close>.
\<close>

theorem second_run_counterexample:
  "\<not> isl (fst (run_inner ex_env_second ex_loader_audio ex_world))
   \<and> \<not> isl (fst (run_inner ex_env_second (ex_loader_again ex_env_second) (ex_world_again ex_env_second)))
   \<and> fetched (ex_world_again ex_env_second) = [FetchAudio ''urlA'', FetchAudio ''urlV'']
   \<and> fetched (snd (snd (run_inner ex_env_second (ex_loader_again ex_env_second) (ex_world_again ex_env_second))))
       = [FetchAudio ''urlA'', FetchAudio ''urlV'', FetchAudio ''urlA'']"
  by code_simp

theorem second_run_witness:
  "fetched (ex_world_again ex_env_ok) = [FetchAudio ''urlA'']
   \<and> fetched (snd (snd (run_inner (ex_env_ok\<lparr>is_in_sync := (\<lambda>rf p. True)\<rparr>)
         (ex_loader_again ex_env_ok) (ex_world_again ex_env_ok)))) = [FetchAudio ''urlA'']
   \<and> map_option rf_resource (sm_file Audio (the (sync_meta (projr (fst (run_inner ex_env_ok ex_loader_audio ex_world))))))
       = Some ''urlA''
   \<and> map_option rf_resource (sm_file Audio (the (sync_meta (projr (fst
         (run_inner (ex_env_ok\<lparr>is_in_sync := (\<lambda>rf p. True)\<rparr>)
            (ex_loader_again ex_env_ok) (ex_world_again ex_env_ok)))))))
       = Some ''urlA''"
proof -
  let ?e2 = "ex_env_ok\<lparr>is_in_sync := (\<lambda>rf p. True)\<rparr>"
  let ?R1 = "run_inner ex_env_ok ex_loader_audio ex_world"
  let ?R2 = "run_inner ?e2 (ex_loader_again ex_env_ok) (ex_world_again ex_env_ok)"
  have i1: "\<not> isl (fst ?R1)" by code_simp
  have i2: "\<not> isl (fst ?R2)" by code_simp
  have r1: "?R1 = (Inr (projr (fst ?R1)), fst (snd ?R1), snd (snd ?R1))"
    using i1 by (cases "fst ?R1") (auto simp: prod_eq_iff)
  have r2': "?R2 = (Inr (projr (fst ?R2)), fst (snd ?R2), snd (snd ?R2))"
    using i2 by (cases "fst ?R2") (auto simp: prod_eq_iff)
  have r2: "run_inner ?e2 (ex_loader_audio\<lparr>loader_song := (projr (fst ?R1))\<lparr>status := NONE\<rparr>\<rparr>)
      (ex_world_again ex_env_ok) = (Inr (projr (fst ?R2)), fst (snd ?R2), snd (snd ?R2))"
    using r2' by (simp add: ex_loader_again_def)
  from run_inner_Inr [OF r1] obtain sm1 where sm1: "sync_meta (projr (fst ?R1)) = Some sm1" by blast
  from run_inner_Inr [OF r2'] obtain sm2 where sm2: "sync_meta (projr (fst ?R2)) = Some sm2" by blast
  have d: "get_usdb_details ex_env_ok (song_id (loader_song ex_loader_audio)) = Inr ex_details"
    by (simp add: ex_env_ok_def ex_env_def)
  have t: "get_notes_parsed ex_env_ok (sd_song_id ex_details) = Inr ex_txt"
    by (simp add: ex_env_ok_def ex_env_def)
  have urls: "[] \<notin> set (all_comment_videos ex_details)" by (simp add: ex_details_def)
  have files: "\<forall>k rf. sm_file k sm1 = Some rf \<longrightarrow> (\<lambda>rf p. True) rf (path_parent (sm_path sm1))" by simp
  have a1: "map_option rf_resource (sm_file Audio (the (sync_meta (projr (fst ?R1))))) = Some ''urlA''"
    by code_simp
  have f1: "fetched (ex_world_again ex_env_ok) = [FetchAudio ''urlA'']" by code_simp
  have first: "\<forall>k. \<not> stage_enabled (loader_options ex_loader_audio) ex_txt k
      \<or> stage_candidates ex_details ex_txt k = []
      \<or> map_option rf_resource (sm_file k sm1) = Some (hd (stage_candidates ex_details ex_txt k))"
  proof
    fix k
    show "\<not> stage_enabled (loader_options ex_loader_audio) ex_txt k
      \<or> stage_candidates ex_details ex_txt k = []
      \<or> map_option rf_resource (sm_file k sm1) = Some (hd (stage_candidates ex_details ex_txt k))"
      using a1 sm1
      by (cases k)
         (simp_all add: stage_enabled_def stage_candidates_def audio_candidates_def ex_loader_audio_def
            ex_options_audio_def ex_options_def ex_txt_def ex_meta_tags_def truthy_def)
  qed
  note S = second_run [OF r1 r2 d t urls sm1 sm2 files]
  have "map_option rf_resource (sm_file Audio sm2) = map_option rf_resource (sm_file Audio sm1)"
    using S by blast
  moreover have "fetched (snd (snd ?R2)) = fetched (ex_world_again ex_env_ok)"
    using S first by blast
  ultimately show ?thesis using a1 f1 sm1 sm2 by simp
qed

section \<open>Exceptions outside the try block\<close>

text \<open>
  C9, as it is stated, fails. When the store's \<^verbatim>\<open>upsert\<close> raises after a successful
  pipeline, or its \<^verbatim>\<open>delete\<close> raises for a song gone from USDB, the exception leaves
  \<^verbatim>\<open>run\<close>, and the only event of the run is the notification that the download
  started: no terminal notification and no \<^verbatim>\<open>DownloadFinished\<close> is posted.
\<close>

theorem run_with_counterexample:
  "fst (run_with (reliable\<lparr>upsert_raises := True\<rparr>) ex_env_ok ex_loader_audio ex_world) = Some OtherError
   \<and> events (snd (snd (run_with (reliable\<lparr>upsert_raises := True\<rparr>) ex_env_ok ex_loader_audio ex_world)))
       = [SongChanged 1]
   \<and> fst (run_with (reliable\<lparr>delete_raises := True\<rparr>) ex_env_gone ex_loader ex_world) = Some OtherError
   \<and> events (snd (snd (run_with (reliable\<lparr>delete_raises := True\<rparr>) ex_env_gone ex_loader ex_world)))
       = [SongChanged 1]"
  by code_simp

theorem run_with_events_witness:
  "fst (run_with reliable ex_env_ok ex_loader_audio ex_world) = None
   \<and> events (snd (snd (run_with reliable ex_env_ok ex_loader_audio ex_world)))
       = [SongChanged 1, SongChanged 1, DownloadFinished 1]
   \<and> events (snd (snd (run_with reliable ex_env_gone ex_loader ex_world)))
       = [SongChanged 1, SongDeleted 1, DownloadFinished 1]"
proof -
  have d: "\<not> delete_raises reliable" and u: "\<not> upsert_raises reliable"
    and p: "\<forall>ev. \<not> post_raises reliable ev"
    by (simp_all add: reliable_def)
  have i: "\<not> isl (fst (run_inner ex_env_ok ex_loader_audio ex_world))" by code_simp
  then have ok: "fst (run_inner ex_env_ok ex_loader_audio ex_world) \<noteq> Inl UsdbNotFoundError"
    by (cases "fst (run_inner ex_env_ok ex_loader_audio ex_world)") auto
  have gone: "fst (run_inner ex_env_gone ex_loader ex_world) = Inl UsdbNotFoundError"
    by (simp add: run_inner_def run_stages_def Context_new_def get_usdb_data_def Let_def
        ex_env_gone_def ex_env_def)
  show ?thesis
    using run_with_events [OF d u p, of ex_env_ok ex_loader_audio ex_world]
      run_with_events [OF d u p, of ex_env_gone ex_loader ex_world] ok gone
    by (simp add: ex_world_def ex_loader_audio_def ex_loader_def ex_song_def)
qed

section \<open>The record id across a run\<close>

lemma Context_new_record:
  assumes "Context_new e sng opts tmp w = (Inr ctx0, w0)"
  shows "\<exists>sm0. sync_meta (song ctx0) = Some sm0
    \<and> sync_meta_id sm0 = (case sync_meta sng of Some m \<Rightarrow> sync_meta_id m | None \<Rightarrow> new_sync_meta_id e)
    \<and> pinned sm0 = (case sync_meta sng of Some m \<Rightarrow> pinned m | None \<Rightarrow> False)"
proof -
  from assms obtain d t where gd: "get_usdb_data e (song_id sng) w = (Inr (d, t), w0)"
    by (auto simp: Context_new_def Let_def split: prod.splits sum.splits)
  from assms gd obtain paths where
    loc: "Locations_new e w0 (update_song_with_usdb_data sng d t) (song_dir opts) (txt_headers t) tmp = Inr paths"
    by (auto simp: Context_new_def Let_def split: prod.splits sum.splits)
  let ?s1 = "update_song_with_usdb_data sng d t"
  let ?s2 = "if sync_meta ?s1 = None
      then ?s1\<lparr>sync_meta := Some (SyncMeta_new e (song_id ?s1) (folder paths) (txt_meta_tags t))\<rparr> else ?s1"
  have c0: "ctx0 = attrs_post_init e \<lparr>song = ?s2, details = d, ctx_options = opts, ctx_txt = t,
                           ctx_locations = paths, out = empty_files\<rparr>"
    using assms gd loc by (simp add: Context_new_def Let_def)
  show ?thesis
    unfolding c0
    by (cases "sync_meta sng") (simp_all add: attrs_post_init_def SyncMeta_new_def)
qed

text \<open>
  C10: the record a successful run returns has the id and the pinned flag of the record
  the song had before the run, when it had one; only when it had none is the id a newly
  minted one and the record not pinned.
\<close>

theorem run_inner_record_id:
  assumes "run_inner e l w = (Inr s', l', w')"
  shows "\<exists>sm'. sync_meta s' = Some sm'
    \<and> sync_meta_id sm' = (case sync_meta (loader_song l) of
          Some m \<Rightarrow> sync_meta_id m | None \<Rightarrow> new_sync_meta_id e)
    \<and> pinned sm' = (case sync_meta (loader_song l) of Some m \<Rightarrow> pinned m | None \<Rightarrow> False)"
proof -
  let ?sng = "(loader_song l)\<lparr>status := DOWNLOADING\<rparr>"
  from assms obtain ctx9 w9 where
    rs: "run_stages e ?sng (loader_options l) (mkdtemp e) (start_world e l w) = (Inr ctx9, w9)"
    by (auto simp: run_inner_def Let_def start_world_def split: prod.splits sum.splits)
  have s': "s' = song (fst (write_sync_meta e ctx9 (remove_tree (mkdtemp e) w9)))"
    using assms rs by (auto simp: run_inner_def Let_def start_world_def split: prod.splits)
  from run_stages_Inr [OF rs] obtain ctx0 w0 ctx4 w4 where
    cn: "Context_new e ?sng (loader_options l) (mkdtemp e) (start_world e l w) = (Inr ctx0, w0)"
    and dl: "downloads e ctx0 w0 = (ctx4, w4)" and s9: "song ctx9 = song ctx4"
    by (elim exE conjE) (rule that)
  from Context_new_record [OF cn] obtain sm0 where
    sm0: "sync_meta (song ctx0) = Some sm0"
    and id0: "sync_meta_id sm0 = (case sync_meta (loader_song l) of
          Some m \<Rightarrow> sync_meta_id m | None \<Rightarrow> new_sync_meta_id e)"
    and pin0: "pinned sm0 = (case sync_meta (loader_song l) of Some m \<Rightarrow> pinned m | None \<Rightarrow> False)"
    by auto
  have "sync_meta (song ctx9) = Some sm0"
    using s9 fields_downloads(1) [OF dl] sm0 by simp
  with write_sync_meta_record_id [of e ctx9 "remove_tree (mkdtemp e) w9"] id0 pin0 s'
  show ?thesis by auto
qed

theorem run_inner_record_id_witness:
  "sync_meta_id ex_sync_meta = 3 \<and> pinned ex_sync_meta
   \<and> sync_meta_id (the (sync_meta (projr (fst (run_inner ex_env ex_loader_kept ex_world_kept))))) = 3
   \<and> pinned (the (sync_meta (projr (fst (run_inner ex_env ex_loader_kept ex_world_kept)))))
   \<and> new_sync_meta_id ex_env_ok = 7
   \<and> sync_meta_id (the (sync_meta (projr (fst (run_inner ex_env_ok ex_loader_audio ex_world))))) = 7
   \<and> \<not> pinned (the (sync_meta (projr (fst (run_inner ex_env_ok ex_loader_audio ex_world)))))"
proof -
  let ?R = "run_inner ex_env ex_loader_kept ex_world_kept"
  let ?N = "run_inner ex_env_ok ex_loader_audio ex_world"
  have i: "\<not> isl (fst ?R)" by code_simp
  have r: "?R = (Inr (projr (fst ?R)), fst (snd ?R), snd (snd ?R))"
    using i by (cases "fst ?R") (auto simp: prod_eq_iff)
  have j: "\<not> isl (fst ?N)" by code_simp
  have n: "?N = (Inr (projr (fst ?N)), fst (snd ?N), snd (snd ?N))"
    using j by (cases "fst ?N") (auto simp: prod_eq_iff)
  show ?thesis
    using run_inner_record_id [OF r] run_inner_record_id [OF n]
    by (auto simp: ex_loader_kept_def ex_loader_audio_def ex_song_def ex_sync_meta_def
        ex_env_ok_def ex_env_def)
qed

section \<open>The song folder\<close>

lemma nat_str_nonempty: "nat_str n \<noteq> []"
  by (subst nat_str.simps) simp

lemma digit_char_inj: "a < 10 \<Longrightarrow> b < 10 \<Longrightarrow> digit_char a = digit_char b \<Longrightarrow> a = b"
proof -
  assume a: "a < 10" and b: "b < 10" and eq: "digit_char a = digit_char b"
  have d: "distinct ''0123456789''" by simp
  have "a < length ''0123456789''" "b < length ''0123456789''" using a b by simp_all
  with d eq show ?thesis unfolding digit_char_def by (simp only: nth_eq_iff_index_eq)
qed



lemma nat_str_inj: "nat_str m = nat_str n \<Longrightarrow> m = n"
proof (induction m arbitrary: n rule: nat_str.induct)
  case (1 m)
  show ?case
  proof (cases "m < 10")
    case m: True
    show ?thesis
    proof (cases "n < 10")
      case True
      with m "1.prems" show ?thesis
        by (subst (asm) nat_str.simps, subst (asm) (2) nat_str.simps) (simp add: digit_char_inj)
    next
      case False
      have "length (nat_str n) \<ge> 2"
        using False nat_str_nonempty [of "n div 10"]
        by (subst nat_str.simps) (cases "nat_str (n div 10)"; simp)
      moreover have "length (nat_str m) = 1" using m by (subst nat_str.simps) simp
      ultimately show ?thesis using "1.prems" by simp
    qed
  next
    case m: False
    show ?thesis
    proof (cases "n < 10")
      case True
      have "length (nat_str m) \<ge> 2"
        using m nat_str_nonempty [of "m div 10"]
        by (subst nat_str.simps) (cases "nat_str (m div 10)"; simp)
      moreover have "length (nat_str n) = 1" using True by (subst nat_str.simps) simp
      ultimately show ?thesis using "1.prems" by simp
    next
      case False
      have mm: "nat_str m = nat_str (m div 10) @ [digit_char (m mod 10)]"
        using m by (subst nat_str.simps) simp
      have nn: "nat_str n = nat_str (n div 10) @ [digit_char (n mod 10)]"
        using False by (subst nat_str.simps) simp
      from "1.prems" mm nn have e1: "nat_str (m div 10) = nat_str (n div 10)"
        and e2: "digit_char (m mod 10) = digit_char (n mod 10)" by simp_all
      from "1.IH" [OF m e1] have d: "m div 10 = n div 10" .
      from e2 have r: "m mod 10 = n mod 10" by (intro digit_char_inj) simp_all
      from d r show ?thesis by (metis div_mult_mod_eq)
    qed
  qed
qed

lemma candidate_inj: "candidate p m = candidate p n \<Longrightarrow> m = n"
  by (simp add: candidate_def name_suffix_def nat_str_inj)





text \<open>Among the candidates searched one is free: the search does not fail.\<close>

lemma next_unique_directory_total:
  assumes "p \<noteq> []"
  shows "\<exists>q. next_unique_directory w p = Inr q"
proof (cases "path_exists w p")
  case False
  then show ?thesis by (simp add: next_unique_directory_def)
next
  case True
  let ?cs = "map (candidate p) [1..<Suc (Suc (length (files w)))]"
  have dist: "distinct ?cs"
    by (auto simp del: upt_Suc simp: distinct_map inj_on_def dest: candidate_inj)
  have "\<not> set ?cs \<subseteq> set (files w)"
  proof
    assume sub: "set ?cs \<subseteq> set (files w)"
    have "card (set ?cs) = length ?cs" using dist by (rule distinct_card)
    then have "card (set ?cs) = Suc (length (files w))" by (simp del: upt_Suc)
    moreover have "card (set ?cs) \<le> card (set (files w))" using sub by (simp add: card_mono)
    moreover have "card (set (files w)) \<le> length (files w)" by (rule card_length)
    ultimately show False by simp
  qed
  then obtain c where "c \<in> set ?cs" "\<not> path_exists w c" by (auto simp del: upt_Suc simp: path_exists_def)
  then have "find (\<lambda>c. \<not> path_exists w c) ?cs \<noteq> None" by (auto simp del: upt_Suc simp: find_None_iff)
  with True assms show ?thesis by (auto simp del: upt_Suc simp: next_unique_directory_def)
qed













lemma artist_title_creator [simp]:
  "artist_title_str (hs\<lparr>h_creator := c\<rparr>) = artist_title_str hs"
  by (simp add: artist_title_str_def)








end
